theory Spec2Isabelle
  imports Complex_Main "HOL-Library.Sublist"
begin

section \<open>Data model (models.py)\<close>

text \<open>
  The pydantic models of \<^verbatim>\<open>models.py\<close>, restricted to the fields the scanning and
  cleanup core reads. Python integers are unbounded, so every integer field is an
  \<^typ>\<open>int\<close>; an \<^verbatim>\<open>Optional[str]\<close> is a \<^typ>\<open>string option\<close>.
  The purely descriptive text fields of \<^verbatim>\<open>Category\<close> (description, consequences,
  recovery, ...) are never read by the code below and are left out.
\<close>

datatype risk_level = SAFE | REVIEW | RISKY

record category =
  cat_id :: string
  cat_name :: string
  paths :: "string list"
  cat_risk_level :: risk_level
  glob_patterns :: "string list"
  search_roots :: "string list"
  is_recursive :: bool
  min_size_bytes :: int
  cleanup_command :: "string option"

record scan_result =
  category_id :: string
  category_name :: string
  path :: string
  size_bytes :: int
  file_count :: int
  dir_count :: int
  risk_level :: risk_level
  exists :: bool
  error :: "string option"

record cleanup_result =
  cr_category_id :: string
  cr_path :: string
  bytes_freed :: int
  files_deleted :: int
  success :: bool
  cr_error :: "string option"
  dry_run :: bool

text \<open>
  \<^verbatim>\<open>CATEGORIES\<close> is a dictionary from category id to \<^verbatim>\<open>Category\<close>. The functions
  below only look ids up in it, so the table is a parameter: every theorem holds for
  the table of \<^verbatim>\<open>categories.py\<close> and for any other one.
\<close>

type_synonym registry = "string \<rightharpoonup> category"

definition get_category :: "registry \<Rightarrow> string \<Rightarrow> category option" where
  "get_category CATEGORIES cid = CATEGORIES cid"

text \<open>Python's \<^verbatim>\<open>sep.join(xs)\<close>.\<close>

fun join :: "string \<Rightarrow> string list \<Rightarrow> string" where
  "join sep [] = []"
| "join sep [x] = x"
| "join sep (x # y # ys) = x @ sep @ join sep (y # ys)"

section \<open>Request validation (cleaner.py)\<close>

definition MAX_CLEANUP_BYTES :: int where
  "MAX_CLEANUP_BYTES = 100 * 1024 ^ 3"

text \<open>
  The two messages of \<^verbatim>\<open>validate_cleanup_request\<close>. The first one prints the
  requested size as a floating-point number of GB; the message is kept as a value
  holding the requested size, the second one holds the offending id
  (\<^verbatim>\<open>f"Unknown category: {cat_id}"\<close>).
\<close>

datatype request_error = ExceedsSafetyLimit int | UnknownCategory string

fun first_unknown :: "registry \<Rightarrow> string list \<Rightarrow> string option" where
  "first_unknown CATEGORIES [] = None"
| "first_unknown CATEGORIES (cid # rest) =
     (if cid \<notin> dom CATEGORIES then Some cid else first_unknown CATEGORIES rest)"

definition validate_cleanup_request ::
  "registry \<Rightarrow> string list \<Rightarrow> int \<Rightarrow> bool \<times> request_error option" where
  "validate_cleanup_request CATEGORIES category_ids total_bytes =
     (if total_bytes > MAX_CLEANUP_BYTES then (False, Some (ExceedsSafetyLimit total_bytes))
      else case first_unknown CATEGORIES category_ids of
             Some cid \<Rightarrow> (False, Some (UnknownCategory cid))
           | None \<Rightarrow> (True, None))"

section \<open>Aggregation of scan results (scanner.py)\<close>

text \<open>
  \<^verbatim>\<open>[r.error for r in results if r.error]\<close>: an error that is \<^verbatim>\<open>None\<close> or the empty
  string is falsy and dropped.
\<close>

fun truthy_errors :: "scan_result list \<Rightarrow> string list" where
  "truthy_errors [] = []"
| "truthy_errors (r # rs) =
     (case error r of
        None \<Rightarrow> truthy_errors rs
      | Some e \<Rightarrow> (if e = [] then truthy_errors rs else e # truthy_errors rs))"

definition aggregate_category_results :: "scan_result list \<Rightarrow> scan_result option" where
  "aggregate_category_results results =
     (case results of
        [] \<Rightarrow> None
      | first # _ \<Rightarrow>
          (let existing_paths = map path (filter (\<lambda>r. exists r \<and> size_bytes r > 0) results);
               display_path = (case existing_paths of p # _ \<Rightarrow> p | [] \<Rightarrow> path first);
               total_size = sum_list (map size_bytes results);
               total_files = sum_list (map file_count results);
               total_dirs = sum_list (map dir_count results);
               any_exists = list_ex exists results;
               errors = truthy_errors results
           in Some \<lparr> category_id = category_id first,
                     category_name = category_name first,
                     path = display_path,
                     size_bytes = total_size,
                     file_count = total_files,
                     dir_count = total_dirs,
                     risk_level = risk_level first,
                     exists = any_exists,
                     error = (if errors \<noteq> [] then Some (join ''; '' errors) else None) \<rparr>))"

section \<open>Paths and the environment (pathlib, os.path)\<close>

text \<open>
  A \<^verbatim>\<open>pathlib.Path\<close> is its anchor (absolute or relative) and the list of its
  components; \<^verbatim>\<open>str(path)\<close> renders them. \<^verbatim>\<open>Path(s)\<close> splits \<^verbatim>\<open>s\<close> at the slashes
  and drops the empty components and the \<^verbatim>\<open>.\<close> components, as pathlib does (the POSIX
  special case of a path starting with exactly two slashes is not modelled).
\<close>

datatype path = Path (is_abs: bool) (parts: "string list")

fun split_slash :: "string \<Rightarrow> string list" where
  "split_slash [] = [[]]"
| "split_slash (c # cs) =
     (if c = CHR ''/'' then [] # split_slash cs
      else (case split_slash cs of [] \<Rightarrow> [[c]] | w # ws \<Rightarrow> (c # w) # ws))"

definition Path_of :: "string \<Rightarrow> path" where
  "Path_of s = Path (s \<noteq> [] \<and> hd s = CHR ''/'')
                    (filter (\<lambda>x. x \<noteq> [] \<and> x \<noteq> ''.'') (split_slash s))"

fun path_str :: "path \<Rightarrow> string" where
  "path_str (Path True ps) = ''/'' @ join ''/'' ps"
| "path_str (Path False ps) = (if ps = [] then ''.'' else join ''/'' ps)"

text \<open>
  \<^verbatim>\<open>Path(entry.path)\<close> for a directory entry: \<^verbatim>\<open>entry.path\<close> is
  \<^verbatim>\<open>os.path.join(dir, entry.name)\<close>, and an entry name is a single component.
\<close>

definition child :: "path \<Rightarrow> string \<Rightarrow> path" where
  "child p n = Path (is_abs p) (parts p @ [n])"

text \<open>\<^verbatim>\<open>a in b.parents\<close>: \<open>a\<close> is a proper ancestor of \<open>b\<close>.\<close>

definition is_ancestor :: "path \<Rightarrow> path \<Rightarrow> bool" where
  "is_ancestor a b \<longleftrightarrow> is_abs a = is_abs b \<and> strict_prefix (parts a) (parts b)"

text \<open>
  The process environment, as far as \<^verbatim>\<open>expand_path\<close> reads it: the home directory
  of the current user (\<^verbatim>\<open>HOME\<close>, else the password database), the home directories of
  named users (for \<^verbatim>\<open>~name\<close>), and the substitution \<^verbatim>\<open>os.path.expandvars\<close> performs
  on a string that contains a dollar sign.
\<close>

record environ =
  userhome :: string
  pw_dir :: "string \<Rightarrow> string option"
  expand_env :: "string \<Rightarrow> string"

definition expandvars :: "environ \<Rightarrow> string \<Rightarrow> string" where
  "expandvars E s = (if CHR ''$'' \<notin> set s then s else expand_env E s)"

definition rstrip_slash :: "string \<Rightarrow> string" where
  "rstrip_slash s = rev (dropWhile (\<lambda>c. c = CHR ''/'') (rev s))"

text \<open>\<^verbatim>\<open>posixpath.expanduser\<close>.\<close>

definition expanduser :: "environ \<Rightarrow> string \<Rightarrow> string" where
  "expanduser E s =
     (case s of
        [] \<Rightarrow> s
      | c # cs \<Rightarrow>
          if c \<noteq> CHR ''~'' then s
          else
            let name = takeWhile (\<lambda>c. c \<noteq> CHR ''/'') cs;
                rest = dropWhile (\<lambda>c. c \<noteq> CHR ''/'') cs;
                home = (if name = [] then Some (userhome E) else pw_dir E name)
            in case home of
                 None \<Rightarrow> s
               | Some h \<Rightarrow>
                   (let r = rstrip_slash h @ rest in if r = [] then ''/'' else r))"

definition expand_path :: "environ \<Rightarrow> string \<Rightarrow> path" where
  "expand_path E s = Path_of (expanduser E (expandvars E s))"

definition Path_home :: "environ \<Rightarrow> path" where
  "Path_home E = Path_of (expanduser E ''~'')"

section \<open>Path safety (cleaner.py)\<close>

definition BLOCKED_PATHS :: "string list" where
  "BLOCKED_PATHS =
     [''~/Documents'', ''~/Desktop'', ''~/Pictures'', ''~/Music'', ''~/Movies'',
      ''~/Code'', ''~/Projects'', ''~/Work'', ''/System'', ''/Library'',
      ''/Applications'', ''/usr'', ''/bin'', ''/sbin'', ''/var'', ''/private'',
      ''/Users'', ''~'']"

text \<open>
  The loop over \<^verbatim>\<open>BLOCKED_PATHS\<close>: the result is \<open>False\<close> when the loop returns
  \<^verbatim>\<open>False\<close>, and \<open>True\<close> when it runs to its end.
\<close>

fun blocked_loop :: "environ \<Rightarrow> string \<Rightarrow> string list \<Rightarrow> bool" where
  "blocked_loop E ps [] = True"
| "blocked_loop E ps (blocked # rest) =
     (let blocked_expanded = path_str (expand_path E blocked) in
      if ps = blocked_expanded \<or> prefix (blocked_expanded @ ''/'') ps
      then (if ps = blocked_expanded then False else blocked_loop E ps rest)
      else blocked_loop E ps rest)"

definition is_path_safe :: "environ \<Rightarrow> path \<Rightarrow> bool" where
  "is_path_safe E p =
     (let ps = path_str p in
      if \<not> blocked_loop E ps BLOCKED_PATHS then False
      else let home = path_str (Path_home E) in
           if ps = home then False else True)"

section \<open>The filesystem, the size cache and the clock (os, pathlib, time)\<close>

text \<open>
  The filesystem is a tree. A regular file carries its \<^verbatim>\<open>st_size\<close>; a directory
  carries whether it can be listed and its entries in the order \<^verbatim>\<open>os.scandir\<close>
  yields them; a symbolic link carries its target, an absolute path given by its
  components. \<open>Stale\<close> is an entry that the directory lists as a regular file but whose
  \<^verbatim>\<open>stat\<close> fails with \<^verbatim>\<open>FileNotFoundError\<close> (it was removed after the directory was
  read); \<open>Special\<close> is a socket, a pipe or a device. Search permission is granted on
  every directory: only listing can be denied.
\<close>

datatype fsnode =
    File nat
  | Dir bool "(string \<times> fsnode) list"
  | Symlink "string list"
  | Stale
  | Special

text \<open>
  \<^verbatim>\<open>PermissionError\<close> is a subclass of \<^verbatim>\<open>OSError\<close>; the handlers of the source
  test for it first. Each error carries its message, \<^verbatim>\<open>str(e)\<close>.
\<close>

datatype oserror = PermissionError string | OSError string

text \<open>
  The state a call can read and change: the filesystem with the working directory,
  the module-level \<^verbatim>\<open>_size_cache\<close>, and the clock. \<^verbatim>\<open>time.time()\<close> is an input of
  the program: the \<open>k\<close>-th call returns \<open>clock k\<close>, and \<open>ticks\<close> counts the calls made.
  Timestamps are real numbers.
\<close>

record world =
  fs :: fsnode
  cwd :: "string list"
  size_cache :: "string \<rightharpoonup> (int \<times> int \<times> int \<times> real)"
  clock :: "nat \<Rightarrow> real"
  ticks :: nat

definition time_time :: "world \<Rightarrow> real \<times> world" where
  "time_time w = (clock w (ticks w), w\<lparr>ticks := ticks w + 1\<rparr>)"

text \<open>Descent from a node along components, without following links.\<close>

fun node_at :: "fsnode \<Rightarrow> string list \<Rightarrow> fsnode option" where
  "node_at n [] = Some n"
| "node_at (Dir l es) (c # cs) =
     (case map_of es c of None \<Rightarrow> None | Some m \<Rightarrow> node_at m cs)"
| "node_at _ (c # cs) = None"

definition MAXSYMLINKS :: nat where
  "MAXSYMLINKS = 32"

text \<open>
  Path resolution as the kernel does it: \<open>canon fuel rt here todo\<close> walks the
  components \<open>todo\<close> from the directory with the link-free path \<open>here\<close>, follows each
  symbolic link it meets (at most \<open>fuel\<close> of them: more is the error \<^verbatim>\<open>ELOOP\<close>) and
  returns the link-free path of the result, or \<open>None\<close> when a component is missing or
  is looked up in something that is not a directory.
\<close>

fun canon :: "nat \<Rightarrow> fsnode \<Rightarrow> string list \<Rightarrow> string list \<Rightarrow> string list option" where
  "canon fuel rt here [] = Some here"
| "canon fuel rt here (c # cs) =
     (case node_at rt here of
        Some (Dir l es) \<Rightarrow>
          if c = ''..'' then canon fuel rt (butlast here) cs
          else (case map_of es c of
                  None \<Rightarrow> None
                | Some (Symlink target) \<Rightarrow>
                    (case fuel of 0 \<Rightarrow> None | Suc f \<Rightarrow> canon f rt [] (target @ cs))
                | Some _ \<Rightarrow> canon fuel rt (here @ [c]) cs)
      | _ \<Rightarrow> None)"

definition abs_parts :: "world \<Rightarrow> path \<Rightarrow> string list" where
  "abs_parts w p = (if is_abs p then parts p else cwd w @ parts p)"

text \<open>
  \<open>resolve\<close> is what \<^verbatim>\<open>os.stat(path)\<close> finds (links followed), \<open>None\<close> when it raises
  \<^verbatim>\<open>FileNotFoundError\<close>, \<^verbatim>\<open>NotADirectoryError\<close> or the error of a link loop, which are
  the errors \<^verbatim>\<open>Path.exists\<close>, \<^verbatim>\<open>Path.is_file\<close> and \<^verbatim>\<open>Path.is_dir\<close> answer \<open>False\<close> to.
\<close>

definition resolve :: "world \<Rightarrow> path \<Rightarrow> fsnode option" where
  "resolve w p =
     (case canon MAXSYMLINKS (fs w) [] (abs_parts w p) of
        None \<Rightarrow> None
      | Some c \<Rightarrow> (case node_at (fs w) c of Some Stale \<Rightarrow> None | r \<Rightarrow> r))"

definition path_exists :: "world \<Rightarrow> path \<Rightarrow> bool" where
  "path_exists w p \<longleftrightarrow> resolve w p \<noteq> None"

definition path_is_file :: "world \<Rightarrow> path \<Rightarrow> bool" where
  "path_is_file w p \<longleftrightarrow> (case resolve w p of Some (File _) \<Rightarrow> True | _ \<Rightarrow> False)"

definition path_is_dir :: "world \<Rightarrow> path \<Rightarrow> bool" where
  "path_is_dir w p \<longleftrightarrow> (case resolve w p of Some (Dir _ _) \<Rightarrow> True | _ \<Rightarrow> False)"

text \<open>
  \<^verbatim>\<open>path.stat().st_size\<close>. The source reads it of regular files only; the size of
  anything else is not modelled and reads as 0.
\<close>

definition stat_size :: "world \<Rightarrow> path \<Rightarrow> oserror + nat" where
  "stat_size w p =
     (case resolve w p of
        None \<Rightarrow> Inl (OSError (''[Errno 2] No such file or directory: '' @ path_str p))
      | Some (File n) \<Rightarrow> Inr n
      | Some _ \<Rightarrow> Inr 0)"

text \<open>\<^verbatim>\<open>os.scandir(path)\<close>, read to its end.\<close>

definition scandir :: "world \<Rightarrow> path \<Rightarrow> oserror + (string \<times> fsnode) list" where
  "scandir w p =
     (case resolve w p of
        None \<Rightarrow> Inl (OSError (''[Errno 2] No such file or directory: '' @ path_str p))
      | Some (Dir l es) \<Rightarrow>
          if l then Inr es
          else Inl (PermissionError (''[Errno 13] Permission denied: '' @ path_str p))
      | Some _ \<Rightarrow> Inl (OSError (''[Errno 20] Not a directory: '' @ path_str p)))"

text \<open>
  The methods of a directory entry. \<^verbatim>\<open>is_file(follow_symlinks=False)\<close> and
  \<^verbatim>\<open>is_dir(follow_symlinks=False)\<close> answer from the entry's type; \<^verbatim>\<open>entry.stat()\<close>
  is called by the source on regular files only.
\<close>

fun entry_is_file :: "fsnode \<Rightarrow> bool" where
  "entry_is_file (File _) = True"
| "entry_is_file Stale = True"
| "entry_is_file _ = False"

fun entry_is_dir :: "fsnode \<Rightarrow> bool" where
  "entry_is_dir (Dir _ _) = True"
| "entry_is_dir _ = False"

fun entry_stat_size :: "fsnode \<Rightarrow> oserror + nat" where
  "entry_stat_size (File n) = Inr n"
| "entry_stat_size Stale = Inl (OSError ''[Errno 2] No such file or directory'')"
| "entry_stat_size _ = Inr 0"

section \<open>Directory sizes (scanner.py)\<close>

definition CACHE_TTL :: real where
  "CACHE_TTL = 300"

text \<open>
  The inner function \<^verbatim>\<open>_scan\<close> of \<^verbatim>\<open>get_directory_size_fast\<close>. Its three nonlocal
  counters \<^verbatim>\<open>(total_size, file_count, dir_count)\<close> are passed in and returned
  (here \<open>tsize\<close>, \<open>nfiles\<close>, \<open>ndirs\<close>);
  \<open>scan_entries\<close> is the \<^verbatim>\<open>for\<close> loop over the entries. An error of \<^verbatim>\<open>os.scandir\<close>
  leaves the counters as they are, and so does an entry whose \<^verbatim>\<open>stat\<close> fails.
\<close>

type_synonym counters = "int \<times> int \<times> int"

function scan :: "world \<Rightarrow> int \<Rightarrow> path \<Rightarrow> int \<Rightarrow> counters \<Rightarrow> counters"
  and scan_entries ::
    "world \<Rightarrow> int \<Rightarrow> path \<Rightarrow> int \<Rightarrow> (string \<times> fsnode) list \<Rightarrow> counters \<Rightarrow> counters"
where
  "scan w max_depth p depth acc =
     (if depth > max_depth then acc
      else case scandir w p of
             Inl _ \<Rightarrow> acc
           | Inr entries \<Rightarrow> scan_entries w max_depth p depth entries acc)"
| "scan_entries w max_depth p depth [] acc = acc"
| "scan_entries w max_depth p depth ((name, node) # entries) acc =
     scan_entries w max_depth p depth entries
       (case acc of (tsize, nfiles, ndirs) \<Rightarrow>
          if entry_is_file node then
            (case entry_stat_size node of
               Inl _ \<Rightarrow> acc
             | Inr sz \<Rightarrow> (tsize + int sz, nfiles + 1, ndirs))
          else if entry_is_dir node then
            scan w max_depth (child p name) (depth + 1) (tsize, nfiles, ndirs + 1)
          else acc)"
  by pat_completeness auto
termination
  by (relation "inv_image (less_than <*lex*> less_than <*lex*> less_than)
        (\<lambda>x. case x of
           Inl (w, m, p, d, acc) \<Rightarrow> (nat (m + 1 - d), 1, 0)
         | Inr (w, m, p, d, es, acc) \<Rightarrow> (nat (m - d) + 1, 0, length es))")
     (auto simp: nat_add_distrib)

definition get_directory_size_fast :: "world \<Rightarrow> path \<Rightarrow> int \<Rightarrow> counters" where
  "get_directory_size_fast w p max_depth = scan w max_depth p 0 (0, 0, 0)"

definition get_directory_size_cached :: "path \<Rightarrow> int \<Rightarrow> world \<Rightarrow> counters \<times> world" where
  "get_directory_size_cached p max_depth w =
     (let key = path_str p;
          (now, w1) = time_time w;
          fresh = (case size_cache w1 key of
                     None \<Rightarrow> None
                   | Some (sz, files, dirs, cached_at) \<Rightarrow>
                       if now - cached_at < CACHE_TTL then Some (sz, files, dirs) else None)
      in case fresh of
           Some r \<Rightarrow> (r, w1)
         | None \<Rightarrow>
             (case get_directory_size_fast w1 p max_depth of (sz, files, dirs) \<Rightarrow>
                ((sz, files, dirs),
                 w1\<lparr>size_cache := (size_cache w1)(key \<mapsto> (sz, files, dirs, now))\<rparr>)))"

definition get_directory_size :: "path \<Rightarrow> world \<Rightarrow> counters \<times> world" where
  "get_directory_size p w = get_directory_size_cached p 20 w"

section \<open>Recursive discovery (recursive_scanner.py)\<close>

text \<open>\<^verbatim>\<open>SKIP_DIRECTORIES\<close> is a frozen set; the code only tests membership in it.\<close>

definition SKIP_DIRECTORIES :: "string list" where
  "SKIP_DIRECTORIES =
     [''.git'', ''.svn'', ''.hg'', ''Library'', ''Applications'', ''.Trash'',
      ''node_modules'', ''.venv'', ''venv'', ''__pycache__'']"

text \<open>
  The generator \<^verbatim>\<open>find_matching_directories\<close>: the list of the paths it yields, in
  the order it yields them. \<open>find_entries\<close> is its \<^verbatim>\<open>for\<close> loop; each \<^verbatim>\<open>continue\<close>
  goes on with the remaining entries. The filesystem is only read, so the lazy
  generator and the list agree.
\<close>

function find_matching_directories ::
    "world \<Rightarrow> path \<Rightarrow> string \<Rightarrow> int \<Rightarrow> bool \<Rightarrow> path list"
  and find_entries ::
    "world \<Rightarrow> path \<Rightarrow> string \<Rightarrow> int \<Rightarrow> bool \<Rightarrow> (string \<times> fsnode) list \<Rightarrow> path list"
where
  "find_matching_directories w root_dir pattern max_depth skip_inside_match =
     (if max_depth \<le> 0 then []
      else case scandir w root_dir of
             Inl _ \<Rightarrow> []
           | Inr entries \<Rightarrow>
               find_entries w root_dir pattern max_depth skip_inside_match entries)"
| "find_entries w root_dir pattern max_depth skip_inside_match [] = []"
| "find_entries w root_dir pattern max_depth skip_inside_match ((name, node) # entries) =
     (if \<not> entry_is_dir node then
        find_entries w root_dir pattern max_depth skip_inside_match entries
      else if (prefix ''.'' name \<and> name \<noteq> pattern)
              \<and> (name \<notin> {''.venv'', ''.virtualenv''} \<or> pattern \<notin> {''.venv'', ''.virtualenv''}) then
        find_entries w root_dir pattern max_depth skip_inside_match entries
      else if name \<in> set SKIP_DIRECTORIES \<and> name \<noteq> pattern then
        find_entries w root_dir pattern max_depth skip_inside_match entries
      else
        (let entry_path = child root_dir name in
         if name = pattern then
           entry_path #
             (if skip_inside_match then
                find_entries w root_dir pattern max_depth skip_inside_match entries
              else
                find_matching_directories w entry_path pattern (max_depth - 1) skip_inside_match
                @ find_entries w root_dir pattern max_depth skip_inside_match entries)
         else
           find_matching_directories w entry_path pattern (max_depth - 1) skip_inside_match
           @ find_entries w root_dir pattern max_depth skip_inside_match entries))"
  by pat_completeness auto
termination
  by (relation "inv_image (less_than <*lex*> less_than <*lex*> less_than)
        (\<lambda>x. case x of
           Inl (w, r, pat, md, sk) \<Rightarrow> (nat md, 1, 0)
         | Inr (w, r, pat, md, sk, es) \<Rightarrow> (nat (md - 1) + 1, 0, length es))")
     (auto simp: nat_add_distrib)

section \<open>Removing files and trees (pathlib, shutil)\<close>

text \<open>
  \<open>set_entry es n v\<close> replaces the entry named \<open>n\<close> by \<open>v\<close>, or removes it when \<open>v\<close> is
  \<open>None\<close>; \<open>put_at t dir n v\<close> does so in the directory with link-free path \<open>dir\<close>.
\<close>

fun set_entry :: "(string \<times> fsnode) list \<Rightarrow> string \<Rightarrow> fsnode option \<Rightarrow> (string \<times> fsnode) list" where
  "set_entry [] n v = []"
| "set_entry ((k, x) # es) n v =
     (if k = n then (case v of None \<Rightarrow> es | Some y \<Rightarrow> (k, y) # es)
      else (k, x) # set_entry es n v)"

fun put_at :: "fsnode \<Rightarrow> string list \<Rightarrow> string \<Rightarrow> fsnode option \<Rightarrow> fsnode" where
  "put_at (Dir l es) [] n v = Dir l (set_entry es n v)"
| "put_at (Dir l es) (c # cs) n v =
     (case map_of es c of
        None \<Rightarrow> Dir l es
      | Some m \<Rightarrow> Dir l (set_entry es c (Some (put_at m cs n v))))"
| "put_at t _ n v = t"

text \<open>
  Where the last component of a path lives: the link-free path of its parent
  directory and its name. The last component itself is not followed (\<^verbatim>\<open>lstat\<close>).
\<close>

definition locate :: "world \<Rightarrow> path \<Rightarrow> (string list \<times> string) option" where
  "locate w p =
     (let ps = abs_parts w p in
      if ps = [] then None
      else case canon MAXSYMLINKS (fs w) [] (butlast ps) of
             None \<Rightarrow> None
           | Some dir \<Rightarrow> Some (dir, last ps))"

definition lstat :: "world \<Rightarrow> path \<Rightarrow> fsnode option" where
  "lstat w p =
     (case locate w p of
        None \<Rightarrow> None
      | Some (dir, n) \<Rightarrow>
          (case node_at (fs w) dir of
             Some (Dir l es) \<Rightarrow> map_of es n
           | _ \<Rightarrow> None))"

text \<open>
  \<^verbatim>\<open>path.unlink()\<close>: removes a file, a link or a special file from its directory; on a
  directory it fails with \<^verbatim>\<open>PermissionError\<close> (macOS), on a missing path with
  \<^verbatim>\<open>FileNotFoundError\<close>.
\<close>

definition unlink :: "world \<Rightarrow> path \<Rightarrow> oserror option \<times> world" where
  "unlink w p =
     (case lstat w p of
        None \<Rightarrow> (Some (OSError (''[Errno 2] No such file or directory: '' @ path_str p)), w)
      | Some (Dir _ _) \<Rightarrow>
          (Some (PermissionError (''[Errno 1] Operation not permitted: '' @ path_str p)), w)
      | Some _ \<Rightarrow>
          (case locate w p of
             None \<Rightarrow> (None, w)
           | Some (dir, n) \<Rightarrow> (None, w\<lparr>fs := put_at (fs w) dir n None\<rparr>)))"

text \<open>
  \<^verbatim>\<open>shutil.rmtree\<close> with its default error handling: the first error is raised and
  what was removed before it stays removed. \<open>rmtree_dir\<close> removes the contents of a
  directory and then the directory; it returns the error, if any, and what is left of
  the directory (\<open>None\<close> when it is gone). A directory that cannot be listed cannot be
  emptied.
\<close>

fun rmtree_dir :: "string \<Rightarrow> fsnode \<Rightarrow> oserror option \<times> fsnode option"
  and rmtree_entries ::
    "string \<Rightarrow> (string \<times> fsnode) list \<Rightarrow> oserror option \<times> (string \<times> fsnode) list"
where
  "rmtree_dir loc (Dir l es) =
     (if \<not> l then (Some (PermissionError (''[Errno 13] Permission denied: '' @ loc)), Some (Dir l es))
      else case rmtree_entries loc es of
             (None, _) \<Rightarrow> (None, None)
           | (Some e, es') \<Rightarrow> (Some e, Some (Dir l es')))"
| "rmtree_dir loc t = (Some (OSError (''[Errno 20] Not a directory: '' @ loc)), Some t)"
| "rmtree_entries loc [] = (None, [])"
| "rmtree_entries loc ((n, t) # es) =
     (case t of
        Dir l sub \<Rightarrow>
          (case rmtree_dir (loc @ ''/'' @ n) (Dir l sub) of
             (None, _) \<Rightarrow> rmtree_entries loc es
           | (Some e, left) \<Rightarrow>
               (Some e, (case left of None \<Rightarrow> es | Some t' \<Rightarrow> (n, t') # es)))
      | _ \<Rightarrow> rmtree_entries loc es)"

definition rmtree :: "world \<Rightarrow> path \<Rightarrow> oserror option \<times> world" where
  "rmtree w p =
     (if abs_parts w p = [] then
        (case rmtree_dir (path_str p) (fs w) of
           (None, _) \<Rightarrow>
             (Some (OSError (''[Errno 16] Resource busy: '' @ path_str p)), w\<lparr>fs := Dir True []\<rparr>)
         | (Some e, left) \<Rightarrow>
             (Some e, (case left of None \<Rightarrow> w | Some t \<Rightarrow> w\<lparr>fs := t\<rparr>)))
      else
        case lstat w p of
          None \<Rightarrow> (Some (OSError (''[Errno 2] No such file or directory: '' @ path_str p)), w)
        | Some (Symlink _) \<Rightarrow> (Some (OSError ''Cannot call rmtree on a symbolic link''), w)
        | Some t \<Rightarrow>
            (case locate w p of
               None \<Rightarrow> (None, w)
             | Some (dir, n) \<Rightarrow>
                 (case rmtree_dir (path_str p) t of
                    (err, left) \<Rightarrow> (err, w\<lparr>fs := put_at (fs w) dir n left\<rparr>))))"

section \<open>Cleanup (cleaner.py)\<close>

text \<open>
  The two handlers of \<^verbatim>\<open>delete_path\<close>: \<^verbatim>\<open>except PermissionError\<close> comes first, then
  \<^verbatim>\<open>except OSError\<close>.
\<close>

fun delete_error :: "oserror \<Rightarrow> int \<times> int \<times> string option" where
  "delete_error (PermissionError msg) = (0, 0, Some (''Permission denied: '' @ msg))"
| "delete_error (OSError msg) = (0, 0, Some (''OS error: '' @ msg))"

definition delete_path :: "path \<Rightarrow> bool \<Rightarrow> world \<Rightarrow> (int \<times> int \<times> string option) \<times> world" where
  "delete_path p dry w =
     (if \<not> path_exists w p then ((0, 0, None), w)
      else
        let measured =
              (if path_is_file w p then
                 (case stat_size w p of
                    Inl e \<Rightarrow> (Inl e, w)
                  | Inr sz \<Rightarrow> (Inr (int sz, 1), w))
               else
                 (case get_directory_size p w of
                    ((sz, files, _), w1) \<Rightarrow> (Inr (sz, files), w1)))
        in case measured of
             (Inl e, w1) \<Rightarrow> (delete_error e, w1)
           | (Inr (sz, files), w1) \<Rightarrow>
               if dry then ((sz, files, None), w1)
               else
                 (case (if path_is_file w1 p then unlink w1 p else rmtree w1 p) of
                    (Some e, w2) \<Rightarrow> (delete_error e, w2)
                  | (None, w2) \<Rightarrow> ((sz, files, None), w2)))"

text \<open>
  What \<^verbatim>\<open>subprocess.run(command, shell=True, capture_output=True, text=True,
  timeout=300)\<close> does is an input: it returns with an exit code and the text written to
  standard error, or the timeout expires, or another exception is raised (with its
  \<^verbatim>\<open>str\<close>); the command may change the filesystem.
\<close>

datatype proc_outcome = Completed int string | TimeoutExpired | Raised string

type_synonym shell = "string \<Rightarrow> world \<Rightarrow> proc_outcome \<times> world"

definition native_path :: "string \<Rightarrow> string" where
  "native_path command = ''[native command: '' @ command @ '']''"

definition run_native_cleanup ::
  "shell \<Rightarrow> string \<Rightarrow> string \<Rightarrow> bool \<Rightarrow> world \<Rightarrow> cleanup_result \<times> world" where
  "run_native_cleanup sh cid command dry w =
     (if dry then
        (\<lparr> cr_category_id = cid, cr_path = native_path command, bytes_freed = 0,
           files_deleted = 0, success = True, cr_error = None, dry_run = True \<rparr>, w)
      else
        case sh command w of
          (Completed returncode stderr, w') \<Rightarrow>
            if returncode = 0 then
              (\<lparr> cr_category_id = cid, cr_path = native_path command, bytes_freed = 0,
                 files_deleted = 0, success = True, cr_error = None, dry_run = False \<rparr>, w')
            else
              (\<lparr> cr_category_id = cid, cr_path = native_path command, bytes_freed = 0,
                 files_deleted = 0, success = False,
                 cr_error = Some (if stderr \<noteq> [] then stderr else ''Command failed''),
                 dry_run = False \<rparr>, w')
        | (TimeoutExpired, w') \<Rightarrow>
            (\<lparr> cr_category_id = cid, cr_path = native_path command, bytes_freed = 0,
               files_deleted = 0, success = False, cr_error = Some ''Command timed out'',
               dry_run = False \<rparr>, w')
        | (Raised msg, w') \<Rightarrow>
            (\<lparr> cr_category_id = cid, cr_path = native_path command, bytes_freed = 0,
               files_deleted = 0, success = False, cr_error = Some msg,
               dry_run = False \<rparr>, w'))"

text \<open>
  The loop of \<^verbatim>\<open>clean_category\<close> over \<^verbatim>\<open>category.paths\<close>, with its four variables
  \<^verbatim>\<open>total_bytes\<close>, \<^verbatim>\<open>total_files\<close>, \<^verbatim>\<open>errors\<close> and \<^verbatim>\<open>paths_cleaned\<close>. The call is
  modelled with \<^verbatim>\<open>progress_callback=None\<close>, its default.
\<close>

record clean_state =
  total_bytes :: int
  total_files :: int
  errors :: "string list"
  paths_cleaned :: "string list"

fun clean_loop ::
  "environ \<Rightarrow> bool \<Rightarrow> string list \<Rightarrow> clean_state \<Rightarrow> world \<Rightarrow> clean_state \<times> world" where
  "clean_loop E dry [] st w = (st, w)"
| "clean_loop E dry (raw # rest) st w =
     (let p = expand_path E raw in
      if \<not> path_exists w p then clean_loop E dry rest st w
      else if \<not> is_path_safe E p then
        clean_loop E dry rest (st\<lparr>errors := errors st @ [''Blocked path: '' @ path_str p]\<rparr>) w
      else
        case delete_path p dry w of
          ((freed, deleted, err), w') \<Rightarrow>
            if err \<noteq> None \<and> err \<noteq> Some [] then
              clean_loop E dry rest
                (st\<lparr>errors := errors st @ [path_str p @ '': '' @ the err]\<rparr>) w'
            else
              clean_loop E dry rest
                (st\<lparr>total_bytes := total_bytes st + freed,
                    total_files := total_files st + deleted,
                    paths_cleaned := paths_cleaned st @ [path_str p]\<rparr>) w')"

text \<open>
  \<^verbatim>\<open>category.paths[0]\<close> raises \<^verbatim>\<open>IndexError\<close> when the category declares no path (as
  the recursive categories do) and nothing was cleaned.
\<close>

datatype py_error = IndexError

definition clean_category ::
  "shell \<Rightarrow> registry \<Rightarrow> environ \<Rightarrow> string \<Rightarrow> bool \<Rightarrow> world
     \<Rightarrow> (py_error + cleanup_result) \<times> world" where
  "clean_category sh CATEGORIES E cid dry w =
     (case get_category CATEGORIES cid of
        None \<Rightarrow>
          (Inr \<lparr> cr_category_id = cid, cr_path = [], bytes_freed = 0, files_deleted = 0,
                 success = False, cr_error = Some (''Unknown category: '' @ cid),
                 dry_run = dry \<rparr>, w)
      | Some category \<Rightarrow>
          if (cleanup_command category \<noteq> None \<and> cleanup_command category \<noteq> Some []) \<and> \<not> dry
          then (case run_native_cleanup sh cid (the (cleanup_command category)) dry w of
                  (r, w') \<Rightarrow> (Inr r, w'))
          else
            case clean_loop E dry (paths category)
                   \<lparr> total_bytes = 0, total_files = 0, errors = [], paths_cleaned = [] \<rparr> w of
              (st, w') \<Rightarrow>
                (case (case paths_cleaned st of
                         c # _ \<Rightarrow> Inr c
                       | [] \<Rightarrow> (case paths category of [] \<Rightarrow> Inl IndexError | p0 # _ \<Rightarrow> Inr p0)) of
                   Inl e \<Rightarrow> (Inl e, w')
                 | Inr shown \<Rightarrow>
                     (Inr \<lparr> cr_category_id = cid, cr_path = shown,
                            bytes_freed = total_bytes st, files_deleted = total_files st,
                            success = (length (errors st) = 0),
                            cr_error = (if errors st \<noteq> [] then Some (join ''; '' (errors st))
                                        else None),
                            dry_run = dry \<rparr>, w')))"

section \<open>Scanning a recursive category (recursive_scanner.py)\<close>

text \<open>\<^verbatim>\<open>s.replace(old, "")\<close>: every occurrence of \<open>old\<close>, found from the left, is removed.\<close>

function remove_all :: "string \<Rightarrow> string \<Rightarrow> string" where
  "remove_all old [] = []"
| "remove_all old (c # cs) =
     (if old \<noteq> [] \<and> prefix old (c # cs) then remove_all old (drop (length old) (c # cs))
      else c # remove_all old cs)"
  by pat_completeness auto
termination
  by (relation "measure (\<lambda>(old, s). length s)") auto

text \<open>\<^verbatim>\<open>s.strip("/")\<close>.\<close>

definition strip_slash :: "string \<Rightarrow> string" where
  "strip_slash s = rstrip_slash (dropWhile (\<lambda>c. c = CHR ''/'') s)"

definition pattern_name_of :: "string \<Rightarrow> string" where
  "pattern_name_of pattern = strip_slash (remove_all ''*/'' (remove_all ''**/'' pattern))"

text \<open>
  The three nested loops of \<^verbatim>\<open>scan_recursive_category\<close>, innermost first. The state
  of the loops is the list \<^verbatim>\<open>results\<close> and the set \<^verbatim>\<open>seen_paths\<close> (kept as a list: the
  code only adds to it and tests membership). \<^verbatim>\<open>get_directory_size\<close> changes the
  cache and never the filesystem, so the paths the generator yields while the loop
  body runs are those it yields before. The call is modelled with
  \<^verbatim>\<open>progress_callback=None\<close>, its default.
\<close>

type_synonym found_state = "scan_result list \<times> string list"

fun found_loop :: "category \<Rightarrow> path list \<Rightarrow> found_state \<Rightarrow> world \<Rightarrow> found_state \<times> world" where
  "found_loop category [] st w = (st, w)"
| "found_loop category (found_dir # rest) (results, seen_paths) w =
     (let dir_str = path_str found_dir in
      if dir_str \<in> set seen_paths then found_loop category rest (results, seen_paths) w
      else
        case get_directory_size found_dir w of
          ((sz, nfiles, ndirs), w') \<Rightarrow>
            if sz < min_size_bytes category then
              found_loop category rest (results, seen_paths @ [dir_str]) w'
            else
              found_loop category rest
                (results @ [\<lparr> category_id = cat_id category,
                               category_name = cat_name category,
                               path = dir_str,
                               size_bytes = sz,
                               file_count = nfiles,
                               dir_count = ndirs,
                               risk_level = cat_risk_level category,
                               exists = True,
                               error = None \<rparr>],
                 seen_paths @ [dir_str]) w')"

fun pattern_loop ::
  "category \<Rightarrow> path \<Rightarrow> string list \<Rightarrow> found_state \<Rightarrow> world \<Rightarrow> found_state \<times> world" where
  "pattern_loop category root_path [] st w = (st, w)"
| "pattern_loop category root_path (pattern # rest) st w =
     (case found_loop category
             (find_matching_directories w root_path (pattern_name_of pattern) 15 True) st w of
        (st', w') \<Rightarrow> pattern_loop category root_path rest st' w')"

fun root_loop ::
  "environ \<Rightarrow> category \<Rightarrow> string list \<Rightarrow> found_state \<Rightarrow> world \<Rightarrow> found_state \<times> world" where
  "root_loop E category [] st w = (st, w)"
| "root_loop E category (search_root # rest) st w =
     (let root_path = expand_path E search_root in
      if \<not> path_exists w root_path \<or> \<not> path_is_dir w root_path then
        root_loop E category rest st w
      else
        case pattern_loop category root_path (glob_patterns category) st w of
          (st', w') \<Rightarrow> root_loop E category rest st' w')"

text \<open>
  \<^verbatim>\<open>results.sort(key=lambda r: r.size_bytes, reverse=True)\<close>: descending and stable
  (results of equal size keep their order).
\<close>

definition sort_by_size_desc :: "scan_result list \<Rightarrow> scan_result list" where
  "sort_by_size_desc rs = rev (sort_key size_bytes (rev rs))"

definition scan_recursive_category ::
  "environ \<Rightarrow> category \<Rightarrow> world \<Rightarrow> scan_result list \<times> world" where
  "scan_recursive_category E category w =
     (if \<not> is_recursive category then ([], w)
      else
        case root_loop E category (search_roots category) ([], []) w of
          ((results, _), w') \<Rightarrow> (sort_by_size_desc results, w'))"

section \<open>Auxiliary definitions for the proofs about paths\<close>

text \<open>
  The components of a string as \<^const>\<open>Path_of\<close> keeps them, the anchor and the
  components of the home directory, and the text that \<^const>\<open>path_str\<close> puts in front
  of the components that follow those of a given directory.
\<close>

definition comps :: "string \<Rightarrow> string list" where
  "comps s = filter (\<lambda>x. x \<noteq> [] \<and> x \<noteq> ''.'') (split_slash s)"

definition home_abs :: "environ \<Rightarrow> bool" where
  "home_abs E \<longleftrightarrow> rstrip_slash (userhome E) = [] \<or> hd (rstrip_slash (userhome E)) = CHR ''/''"

definition home_parts :: "environ \<Rightarrow> string list" where
  "home_parts E = comps (rstrip_slash (userhome E))"

definition hprefix :: "bool \<Rightarrow> string list \<Rightarrow> string" where
  "hprefix a H = (if a then ''/'' else []) @ (if H = [] then [] else join ''/'' H @ ''/'')"

section \<open>Auxiliary definitions for the proofs about directory sizes\<close>

text \<open>
  Componentwise addition of the three counters; the effect of one iteration of the loop
  of \<^verbatim>\<open>_scan\<close> on the counters; and what one directory entry contributes to the size
  of its directory: a regular file its size, a subdirectory the count of itself and
  its own size measured with depth bound \<open>m\<close>, anything else nothing.
\<close>

definition cadd :: "counters \<Rightarrow> counters \<Rightarrow> counters" where
  "cadd a b = (case a of (a1, a2, a3) \<Rightarrow> case b of (b1, b2, b3) \<Rightarrow> (a1 + b1, a2 + b2, a3 + b3))"

definition entry_step ::
  "world \<Rightarrow> int \<Rightarrow> path \<Rightarrow> int \<Rightarrow> string \<Rightarrow> fsnode \<Rightarrow> counters \<Rightarrow> counters" where
  "entry_step w m p d name node acc =
     (case acc of (tsize, nfiles, ndirs) \<Rightarrow>
          if entry_is_file node then
            (case entry_stat_size node of
               Inl _ \<Rightarrow> acc
             | Inr sz \<Rightarrow> (tsize + int sz, nfiles + 1, ndirs))
          else if entry_is_dir node then
            scan w m (child p name) (d + 1) (tsize, nfiles, ndirs + 1)
          else acc)"

definition entry_size :: "world \<Rightarrow> path \<Rightarrow> int \<Rightarrow> string \<times> fsnode \<Rightarrow> counters" where
  "entry_size w D m e =
     (case e of
        (n, File sz) \<Rightarrow> (int sz, 1, 0)
      | (n, Dir l es) \<Rightarrow> cadd (0, 0, 1) (get_directory_size_fast w (child D n) m)
      | _ \<Rightarrow> (0, 0, 0))"

text \<open>A cache entry: the three counters with the time they were measured at.\<close>

definition cache_entry :: "counters \<Rightarrow> real \<Rightarrow> int \<times> int \<times> int \<times> real" where
  "cache_entry r t = (fst r, fst (snd r), snd (snd r), t)"

section \<open>Auxiliary definition for the proofs about discovery\<close>

text \<open>
  A path lies below \<open>r\<close> with \<open>pat\<close> as its last component and nowhere else between
  \<open>r\<close> and that component.
\<close>

definition below_once :: "path \<Rightarrow> string \<Rightarrow> path \<Rightarrow> bool" where
  "below_once r pat y \<longleftrightarrow>
     is_abs y = is_abs r \<and> (\<exists>rel. parts y = parts r @ rel @ [pat] \<and> pat \<notin> set rel)"

section \<open>The aggregate as the specification words it\<close>

text \<open>
  The error of an aggregate is the non-empty errors of the inputs joined with
  \<^verbatim>\<open>"; "\<close>, absent when there is none; its path is the path of the first input
  that exists with a non-zero size, or the path of the first input.
\<close>

definition spec_errors :: "scan_result list \<Rightarrow> string option" where
  "spec_errors rs =
     (let es = filter (\<lambda>e. e \<noteq> []) (List.map_filter error rs)
      in if es = [] then None else Some (join ''; '' es))"

definition spec_display_path :: "scan_result list \<Rightarrow> string" where
  "spec_display_path rs =
     (case find (\<lambda>r. exists r \<and> size_bytes r \<noteq> 0) rs of
        Some r \<Rightarrow> path r | None \<Rightarrow> path (hd rs))"

section \<open>Sample inputs\<close>

text \<open>
  Concrete inputs on which the theorems below are instantiated: a registry with one
  category, four scan results, and an environment.
\<close>

definition sample_registry :: registry where
  "sample_registry = [''npm_cache'' \<mapsto>
     \<lparr> cat_id = ''npm_cache'', cat_name = ''NPM Cache'',
       paths = [''~/.npm/_cacache'', ''~/.npm/_logs''], cat_risk_level = SAFE,
       glob_patterns = [], search_roots = [], is_recursive = False, min_size_bytes = 0,
       cleanup_command = Some ''npm cache clean --force'' \<rparr>]"

definition sample_scan :: "string \<Rightarrow> int \<Rightarrow> bool \<Rightarrow> string option \<Rightarrow> scan_result" where
  "sample_scan p n ex err =
     \<lparr> category_id = ''npm_cache'', category_name = ''NPM Cache'', path = p,
       size_bytes = n, file_count = 2, dir_count = 1, risk_level = SAFE,
       exists = ex, error = err \<rparr>"

definition sample_scans :: "scan_result list" where
  "sample_scans =
     [sample_scan ''/a'' 0 True None, sample_scan ''/b'' 5 False (Some ''x''),
      sample_scan ''/c'' 7 True (Some ''''), sample_scan ''/d'' 9 True (Some ''y'')]"

definition sample_env :: environ where
  "sample_env = \<lparr> userhome = ''/Users/ada'', pw_dir = (\<lambda>_. None), expand_env = (\<lambda>s. s) \<rparr>"

text \<open>
  A chain of 21 nested directories with one file of one byte at its end, and a home
  directory with a pip cache, an npm cache holding a directory that cannot be listed,
  and a project with nested \<^verbatim>\<open>node_modules\<close> directories.
\<close>

fun deep_chain :: "nat \<Rightarrow> fsnode" where
  "deep_chain 0 = Dir True [(''f'', File 1)]"
| "deep_chain (Suc k) = Dir True [(''d'', deep_chain k)]"

definition deep_world :: world where
  "deep_world = \<lparr> fs = deep_chain 21, cwd = [], size_cache = Map.empty,
                   clock = (\<lambda>k. 1000 + real k), ticks = 0 \<rparr>"

definition sample_fs :: fsnode where
  "sample_fs = Dir True [
     (''Users'', Dir True [(''ada'', Dir True [
        (''Library'', Dir True [(''Caches'', Dir True [(''pip'', Dir True [
           (''a.whl'', File 6), (''http'', Dir True [(''b'', File 4)]),
           (''link'', Symlink [''tmp'']), (''gone'', Stale)])])]),
        (''.npm'', Dir True [
           (''_cacache'', Dir True [(''idx'', File 6)]),
           (''_logs'', Dir True [(''l.log'', File 3), (''root'', Dir False [(''r'', File 9)])])]),
        (''proj'', Dir True [
           (''node_modules'', Dir True [
              (''x'', File 2),
              (''pkg'', Dir True [(''node_modules'', Dir True [(''y'', File 3)])])]),
           (''src'', Dir True [(''node_modules'', Dir True [(''z'', File 5)])]),
           (''.git'', Dir True [(''node_modules'', Dir True [])])])])]),
     (''tmp'', Dir True [(''t.txt'', File 6)])]"

definition sample_world :: world where
  "sample_world = \<lparr> fs = sample_fs, cwd = [''Users'', ''ada''], size_cache = Map.empty,
                     clock = (\<lambda>k. 1000 + 100 * real k), ticks = 0 \<rparr>"

text \<open>The pip cache of the sample home, and the state after its first cached scan.\<close>

definition pip_path :: path where
  "pip_path = Path True [''Users'', ''ada'', ''Library'', ''Caches'', ''pip'']"

definition after_first_scan :: world where
  "after_first_scan = snd (get_directory_size_cached pip_path 20 sample_world)"

text \<open>The sample home directory.\<close>

definition home_path :: path where
  "home_path = Path True [''Users'', ''ada'']"

text \<open>
  The log directory of the sample npm cache (it holds a directory that cannot be
  listed), and a plain file.
\<close>

definition logs_path :: path where
  "logs_path = Path True [''Users'', ''ada'', ''.npm'', ''_logs'']"

definition tmp_file_path :: path where
  "tmp_file_path = Path True [''tmp'', ''t.txt'']"

text \<open>
  Four categories: the npm cache, the yarn cache and the node_modules category of
  \<^verbatim>\<open>categories.py\<close>, and a category whose only path is the home directory; a command
  that succeeds and empties the disk, and a command that fails without output.
\<close>

definition npm_cache_category :: category where
  "npm_cache_category =
     \<lparr> cat_id = ''npm_cache'', cat_name = ''NPM Cache'',
       paths = [''~/.npm/_cacache'', ''~/.npm/_logs''], cat_risk_level = SAFE,
       glob_patterns = [], search_roots = [], is_recursive = False, min_size_bytes = 0,
       cleanup_command = Some ''npm cache clean --force'' \<rparr>"

definition yarn_cache_category :: category where
  "yarn_cache_category =
     \<lparr> cat_id = ''yarn_cache'', cat_name = ''Yarn Cache'',
       paths = [''~/.yarn/cache'', ''~/Library/Caches/Yarn''], cat_risk_level = SAFE,
       glob_patterns = [], search_roots = [], is_recursive = False, min_size_bytes = 0,
       cleanup_command = Some ''yarn cache clean'' \<rparr>"

definition node_modules_category :: category where
  "node_modules_category =
     \<lparr> cat_id = ''node_modules'', cat_name = ''Node Modules'',
       paths = [], cat_risk_level = SAFE,
       glob_patterns = [''**/node_modules''],
       search_roots = [''~/Documents'', ''~/Code'', ''~/Projects'', ''~/Developer'',
                       ''~/repos'', ''~/src''],
       is_recursive = True, min_size_bytes = 10 * 1024 * 1024,
       cleanup_command = None \<rparr>"

definition home_dir_category :: category where
  "home_dir_category =
     \<lparr> cat_id = ''home_dir'', cat_name = ''Home'',
       paths = [''~''], cat_risk_level = RISKY,
       glob_patterns = [], search_roots = [], is_recursive = False, min_size_bytes = 0,
       cleanup_command = None \<rparr>"

definition clean_registry :: registry where
  "clean_registry = map_of
     [(''npm_cache'', npm_cache_category),
      (''yarn_cache'', yarn_cache_category),
      (''node_modules'', node_modules_category),
      (''home_dir'', home_dir_category)]"

definition wiping_shell :: shell where
  "wiping_shell command w = (Completed 0 [], w\<lparr>fs := Dir True []\<rparr>)"

definition failing_shell :: shell where
  "failing_shell command w = (Completed 1 [], w)"

text \<open>The node_modules category, searching the sample project with a threshold of 3 bytes.\<close>

definition proj_category :: category where
  "proj_category = node_modules_category\<lparr>search_roots := [''~/proj'', ''~/nope'', ''~''],
                                          min_size_bytes := 3\<rparr>"

section \<open>Verification: request validation\<close>

lemma first_unknown_None: "first_unknown R ids = None \<longleftrightarrow> set ids \<subseteq> dom R"
  by (induction ids) auto

lemma validate_valid_iff:
  "fst (validate_cleanup_request R xs tb) \<longleftrightarrow> tb \<le> 100 * 1024 ^ 3 \<and> set xs \<subseteq> dom R"
proof (cases "first_unknown R xs")
  case None
  then show ?thesis using first_unknown_None [of R xs]
    by (simp add: validate_cleanup_request_def MAX_CLEANUP_BYTES_def)
next
  case (Some a)
  then show ?thesis using first_unknown_None [of R xs]
    by (simp add: validate_cleanup_request_def MAX_CLEANUP_BYTES_def)
qed

text \<open>
  C1 (as amended). \<^verbatim>\<open>validate_cleanup_request\<close> accepts a request exactly when
  \<^verbatim>\<open>total_bytes\<close> is at most \<open>100 * 1024 ^ 3\<close> (the comparison is strict and the
  ceiling is binary) and every id is a key of the registry; a rejection carries an error
  and an acceptance carries none; the decision depends only on the set of ids, so it
  is independent of their order.
\<close>

theorem validate_cleanup_request_decision:
  "(fst (validate_cleanup_request R ids tb) \<longleftrightarrow>
      tb \<le> 100 * 1024 ^ 3 \<and> (\<forall>i \<in> set ids. i \<in> dom R))
   \<and> (fst (validate_cleanup_request R ids tb) \<longleftrightarrow>
      snd (validate_cleanup_request R ids tb) = None)
   \<and> (set ids = set ids' \<longrightarrow>
      fst (validate_cleanup_request R ids tb) = fst (validate_cleanup_request R ids' tb))"
proof -
  have e: "fst (validate_cleanup_request R ids tb) \<longleftrightarrow>
      snd (validate_cleanup_request R ids tb) = None"
    by (simp add: validate_cleanup_request_def split: option.splits)
  show ?thesis using e by (auto simp: validate_valid_iff)
qed

lemma dom_sample_registry: "dom sample_registry = {''npm_cache''}"
  by (simp add: sample_registry_def)

text \<open>
  The claim as first stated puts the ceiling at \<open>100 * 1000 ^ 3\<close> bytes: a request of
  exactly that size with a known id is accepted.
\<close>

theorem validate_cleanup_request_counterexample:
  "(100 * 1000 ^ 3 :: int) \<ge> 100 * 1000 ^ 3 \<and>
   validate_cleanup_request sample_registry [''npm_cache''] (100 * 1000 ^ 3) = (True, None)"
  by (simp add: validate_cleanup_request_def MAX_CLEANUP_BYTES_def dom_sample_registry)

theorem validate_cleanup_request_witness:
  "fst (validate_cleanup_request sample_registry [''npm_cache'', ''npm_cache''] (100 * 1024 ^ 3))
   \<and> \<not> fst (validate_cleanup_request sample_registry [''npm_cache''] (100 * 1024 ^ 3 + 1))
   \<and> \<not> fst (validate_cleanup_request sample_registry [''npm_cache'', ''nope''] 5)
   \<and> \<not> fst (validate_cleanup_request sample_registry [''nope'', ''npm_cache''] 5)"
proof -
  have a: "fst (validate_cleanup_request sample_registry [''npm_cache'', ''npm_cache''] (100 * 1024 ^ 3))"
    using validate_cleanup_request_decision
      [of sample_registry "[''npm_cache'', ''npm_cache'']" "100 * 1024 ^ 3" "[''npm_cache'']"]
    by (simp add: dom_sample_registry)
  have b: "\<not> fst (validate_cleanup_request sample_registry [''npm_cache''] (100 * 1024 ^ 3 + 1))"
    using validate_cleanup_request_decision
      [of sample_registry "[''npm_cache'']" "100 * 1024 ^ 3 + 1" "[''npm_cache'']"]
    by (simp add: dom_sample_registry)
  have c: "\<not> fst (validate_cleanup_request sample_registry [''npm_cache'', ''nope''] 5)"
    using validate_cleanup_request_decision
      [of sample_registry "[''npm_cache'', ''nope'']" 5 "[''nope'', ''npm_cache'']"]
    by (simp add: dom_sample_registry)
  have d: "set [''npm_cache'', ''nope''] = set [''nope'', ''npm_cache'']" by auto
  have "\<not> fst (validate_cleanup_request sample_registry [''nope'', ''npm_cache''] 5)"
    using validate_cleanup_request_decision
      [of sample_registry "[''npm_cache'', ''nope'']" 5 "[''nope'', ''npm_cache'']"] c d
    by blast
  with a b c show ?thesis by blast
qed

section \<open>Verification: path safety\<close>

lemma split_slash_ne: "split_slash s \<noteq> []"
  by (induction s) (auto split: list.splits)

lemma split_slash_append:
  "split_slash (a @ CHR ''/'' # b) = split_slash a @ split_slash b"
proof (induction a)
  case Nil
  show ?case by simp
next
  case (Cons c a)
  obtain w ws where "split_slash a = w # ws"
    using split_slash_ne [of a] by (cases "split_slash a") auto
  with Cons show ?case by simp
qed

lemma comps_append: "comps (a @ CHR ''/'' # b) = comps a @ comps b"
  by (simp add: comps_def split_slash_append)

lemma Path_home_eq: "Path_home E = Path (home_abs E) (home_parts E)"
  by (auto simp: Path_home_def expanduser_def Path_of_def home_abs_def home_parts_def comps_def Let_def)

lemma expand_tilde: "expand_path E ''~'' = Path (home_abs E) (home_parts E)"
  using Path_home_eq [of E] by (simp add: expand_path_def expandvars_def Path_home_def)

lemma expand_home_rel:
  assumes "CHR ''$'' \<notin> set x"
  shows "expand_path E (''~/'' @ x) = Path (home_abs E) (home_parts E @ comps x)"
proof -
  have "expandvars E (''~/'' @ x) = ''~/'' @ x"
    using assms by (simp add: expandvars_def)
  moreover have "expanduser E (''~/'' @ x) = rstrip_slash (userhome E) @ CHR ''/'' # x"
    by (simp add: expanduser_def Let_def)
  ultimately show ?thesis
    by (simp add: expand_path_def Path_of_def comps_append [unfolded comps_def]
        home_abs_def home_parts_def comps_def hd_append)
qed

lemma expand_abs_literal:
  assumes "CHR ''$'' \<notin> set x"
  shows "expand_path E (CHR ''/'' # x) = Path True (comps x)"
  using assms by (simp add: expand_path_def expandvars_def expanduser_def Path_of_def comps_def)

lemma blocked_loop_iff:
  "blocked_loop E ps bs \<longleftrightarrow> ps \<notin> set (map (\<lambda>b. path_str (expand_path E b)) bs)"
  by (induction bs) (auto simp: Let_def)

lemma is_path_safe_iff:
  "is_path_safe E p \<longleftrightarrow>
     path_str p \<notin> set (map (\<lambda>b. path_str (expand_path E b)) BLOCKED_PATHS)
     \<and> path_str p \<noteq> path_str (Path_home E)"
  by (simp add: is_path_safe_def blocked_loop_iff Let_def)

lemma join_append2:
  "ys \<noteq> [] \<Longrightarrow> join sep (xs @ ys) = (if xs = [] then join sep ys else join sep xs @ sep @ join sep ys)"
proof (induction sep xs rule: join.induct)
  case (1 sep)
  then show ?case by simp
next
  case (2 sep x)
  then show ?case by (cases ys) auto
next
  case (3 sep x y ys)
  then show ?case by simp
qed

lemma path_str_append:
  "ys \<noteq> [] \<Longrightarrow> path_str (Path a (H @ ys)) = hprefix a H @ join ''/'' ys"
  by (cases a) (simp_all add: join_append2 hprefix_def)

lemma path_str_short: "length (path_str (Path a H)) \<le> length (hprefix a H) + 1"
  by (cases a) (simp_all add: hprefix_def)

lemma join_caches:
  "join ''/'' (''Library'' # ''Caches'' # X) = ''Library/Caches'' @ (if X = [] then [] else ''/'' @ join ''/'' X)"
  by (cases X) simp_all

lemma caches_descendant_str:
  "path_str (Path a (H @ ''Library'' # ''Caches'' # X)) =
     hprefix a H @ ''Library/Caches'' @ (if X = [] then [] else ''/'' @ join ''/'' X)"
  using path_str_append [of "''Library'' # ''Caches'' # X" a H] join_caches [of X] by simp

lemma home_child_str: "path_str (Path a (H @ [d])) = hprefix a H @ d"
  using path_str_append [of "[d]" a H] by simp

lemma blocked_strs:
  "map (\<lambda>b. path_str (expand_path E b)) BLOCKED_PATHS =
     map (\<lambda>d. hprefix (home_abs E) (home_parts E) @ d)
       [''Documents'', ''Desktop'', ''Pictures'', ''Music'', ''Movies'', ''Code'', ''Projects'', ''Work'']
     @ [''/System'', ''/Library'', ''/Applications'', ''/usr'', ''/bin'', ''/sbin'', ''/var'',
        ''/private'', ''/Users'', path_str (Path_home E)]"
proof -
  have rel: "\<And>d. CHR ''$'' \<notin> set d \<Longrightarrow> comps d = [d] \<Longrightarrow>
      path_str (expand_path E (''~/'' @ d)) = hprefix (home_abs E) (home_parts E) @ d"
    using expand_home_rel home_child_str by simp
  have ab: "\<And>d. CHR ''$'' \<notin> set d \<Longrightarrow> comps d = [d] \<Longrightarrow>
      path_str (expand_path E (CHR ''/'' # d)) = CHR ''/'' # d"
    using expand_abs_literal by simp
  show ?thesis
    unfolding BLOCKED_PATHS_def list.map append.simps
    using rel [of "''Documents''"] rel [of "''Desktop''"] rel [of "''Pictures''"]
      rel [of "''Music''"] rel [of "''Movies''"] rel [of "''Code''"] rel [of "''Projects''"]
      rel [of "''Work''"]
      ab [of "''System''"] ab [of "''Library''"] ab [of "''Applications''"] ab [of "''usr''"]
      ab [of "''bin''"] ab [of "''sbin''"] ab [of "''var''"] ab [of "''private''"] ab [of "''Users''"]
      expand_tilde [of E] Path_home_eq [of E]
    by (simp add: comps_def)
qed

lemma caches_descendant_safe:
  "is_path_safe E (Path (home_abs E) (home_parts E @ ''Library'' # ''Caches'' # X))"
proof -
  let ?p = "Path (home_abs E) (home_parts E @ ''Library'' # ''Caches'' # X)"
  let ?h = "hprefix (home_abs E) (home_parts E)"
  let ?t = "(if X = [] then [] else ''/'' @ join ''/'' X)"
  have s: "path_str ?p = ?h @ ''Library/Caches'' @ ?t"
    by (rule caches_descendant_str)
  have len: "length (path_str ?p) \<ge> length ?h + 14"
    unfolding s by simp
  have home: "path_str ?p \<noteq> path_str (Path_home E)"
    using len path_str_short [of "home_abs E" "home_parts E"] by (auto simp: Path_home_eq)
  have lits: "\<And>l. length l \<le> 13 \<Longrightarrow> path_str ?p \<noteq> l"
    using len by auto
  have rels: "\<And>d. d \<noteq> [] \<Longrightarrow> hd d \<noteq> CHR ''L'' \<Longrightarrow> path_str ?p \<noteq> ?h @ d"
    unfolding s by (auto simp: neq_Nil_conv)
  show ?thesis
    unfolding is_path_safe_iff blocked_strs
    using home lits rels by simp
qed

lemma caches_eq:
  "expand_path E ''~/Library/Caches'' = Path (home_abs E) (home_parts E @ [''Library'', ''Caches''])"
  using expand_home_rel [of "''Library/Caches''" E] by (simp add: comps_def)

text \<open>
  C3. \<^verbatim>\<open>is_path_safe\<close> blocks exactly the paths whose string equals an expanded
  entry of \<^verbatim>\<open>BLOCKED_PATHS\<close> or the home directory: for every environment the home
  directory is not safe, and every path strictly inside \<^verbatim>\<open>~/Library/Caches\<close> is
  safe, whether it is given by its components or obtained by expanding
  \<^verbatim>\<open>~/Library/Caches/x\<close> for a string \<open>x\<close> without environment-variable
  references.
\<close>

theorem is_path_safe_home_and_caches:
  "\<not> is_path_safe E (Path_home E)
   \<and> is_path_safe E (Path (is_abs (expand_path E ''~/Library/Caches''))
                          (parts (expand_path E ''~/Library/Caches'') @ n # ns))
   \<and> (CHR ''$'' \<notin> set x \<longrightarrow> is_path_safe E (expand_path E (''~/Library/Caches/'' @ x)))
   \<and> (is_path_safe E p \<longleftrightarrow>
        path_str p \<notin> set (map (\<lambda>b. path_str (expand_path E b)) BLOCKED_PATHS)
        \<and> path_str p \<noteq> path_str (Path_home E))"
proof (intro conjI impI)
  show "\<not> is_path_safe E (Path_home E)"
    by (simp add: is_path_safe_iff)
  show "is_path_safe E (Path (is_abs (expand_path E ''~/Library/Caches''))
                          (parts (expand_path E ''~/Library/Caches'') @ n # ns))"
    using caches_descendant_safe [of E "n # ns"] by (simp add: caches_eq)
  show "is_path_safe E p \<longleftrightarrow>
        path_str p \<notin> set (map (\<lambda>b. path_str (expand_path E b)) BLOCKED_PATHS)
        \<and> path_str p \<noteq> path_str (Path_home E)"
    by (rule is_path_safe_iff)
next
  assume x: "CHR ''$'' \<notin> set x"
  have "expand_path E (''~/'' @ (''Library/Caches/'' @ x)) =
          Path (home_abs E) (home_parts E @ comps (''Library/Caches/'' @ x))"
    using x by (intro expand_home_rel) simp
  moreover have "comps (''Library/Caches/'' @ x) = ''Library'' # ''Caches'' # comps x"
    using comps_append [of "''Library/Caches''" x] by (simp add: comps_def)
  ultimately show "is_path_safe E (expand_path E (''~/Library/Caches/'' @ x))"
    using caches_descendant_safe [of E "comps x"] by simp
qed

theorem is_path_safe_witness:
  "CHR ''$'' \<notin> set ''anything''
   \<and> is_path_safe sample_env (expand_path sample_env ''~/Library/Caches/anything'')
   \<and> path_str (expand_path sample_env ''~/Library/Caches/anything'') = ''/Users/ada/Library/Caches/anything''
   \<and> \<not> is_path_safe sample_env (Path_home sample_env)
   \<and> path_str (Path_home sample_env) = ''/Users/ada''"
proof -
  have d: "CHR ''$'' \<notin> set ''anything''" by simp
  have "is_path_safe sample_env (expand_path sample_env (''~/Library/Caches/'' @ ''anything''))"
    using is_path_safe_home_and_caches [of sample_env "''x''" "[]" "''anything''" "Path_home sample_env"] d
    by blast
  moreover have "\<not> is_path_safe sample_env (Path_home sample_env)"
    using is_path_safe_home_and_caches [of sample_env "''x''" "[]" "''anything''" "Path_home sample_env"]
    by blast
  moreover have "path_str (expand_path sample_env ''~/Library/Caches/anything'') = ''/Users/ada/Library/Caches/anything''"
    by (simp add: expand_path_def expandvars_def expanduser_def Path_of_def sample_env_def
        rstrip_slash_def Let_def)
  moreover have "path_str (Path_home sample_env) = ''/Users/ada''"
    by (simp add: Path_home_def expanduser_def Path_of_def sample_env_def rstrip_slash_def Let_def)
  ultimately show ?thesis using d by simp
qed

section \<open>Verification: recursive discovery\<close>

lemma below_once_child:
  "below_once (child r n) pat y \<Longrightarrow> n \<noteq> pat \<Longrightarrow> below_once r pat y"
proof -
  assume a: "below_once (child r n) pat y" and n: "n \<noteq> pat"
  then obtain rel where "parts y = (parts r @ [n]) @ rel @ [pat]" "pat \<notin> set rel"
    by (auto simp: below_once_def child_def)
  then have "parts y = parts r @ (n # rel) @ [pat] \<and> pat \<notin> set (n # rel)"
    using n by auto
  then show ?thesis using a unfolding below_once_def child_def by (metis path.sel(1))
qed

lemma below_once_match: "below_once r pat (child r pat)"
  unfolding below_once_def child_def by (intro conjI exI [of _ "[]"]) simp_all

lemma find_entries_Cons_set:
  assumes "y \<in> set (find_entries w r pat md True ((name, node) # es))"
  shows "y \<in> set (find_entries w r pat md True es)
         \<or> (name = pat \<and> y = child r name)
         \<or> (name \<noteq> pat \<and> y \<in> set (find_matching_directories w (child r name) pat (md - 1) True))"
proof (cases "name = pat")
  case True
  with assms show ?thesis
    by (simp add: Let_def del: find_matching_directories.simps split: if_splits) blast
next
  case False
  with assms show ?thesis
    by (simp add: Let_def del: find_matching_directories.simps split: if_splits) blast+
qed

lemma find_entries_below_once:
  assumes "\<And>name y. name \<noteq> pat \<Longrightarrow>
             y \<in> set (find_matching_directories w (child r name) pat (md - 1) True) \<Longrightarrow>
             below_once (child r name) pat y"
  shows "y \<in> set (find_entries w r pat md True es) \<Longrightarrow> below_once r pat y"
proof (induction es)
  case Nil
  then show ?case by simp
next
  case (Cons e es)
  obtain name node where e: "e = (name, node)" by (cases e) auto
  from find_entries_Cons_set [OF Cons.prems [unfolded e]]
  show ?case
  proof (elim disjE conjE)
    assume "y \<in> set (find_entries w r pat md True es)"
    then show ?thesis by (rule Cons.IH)
  next
    assume "name = pat" "y = child r name"
    then show ?thesis by (simp add: below_once_match)
  next
    assume n: "name \<noteq> pat"
      and "y \<in> set (find_matching_directories w (child r name) pat (md - 1) True)"
    then have "below_once (child r name) pat y" by (rule assms)
    then show ?thesis using n by (rule below_once_child)
  qed
qed

lemma find_below_once_bounded:
  "nat md \<le> k \<Longrightarrow> y \<in> set (find_matching_directories w r pat md True) \<Longrightarrow> below_once r pat y"
proof (induction k arbitrary: md r y)
  case 0
  then show ?case by simp
next
  case (Suc k)
  show ?case
  proof (cases "md \<le> 0")
    case True
    then show ?thesis using Suc.prems by simp
  next
    case False
    then have k: "nat (md - 1) \<le> k" using Suc.prems(1) by simp
    show ?thesis
    proof (cases "scandir w r")
      case (Inl e)
      then show ?thesis using Suc.prems(2) False by simp
    next
      case (Inr es)
      then have "y \<in> set (find_entries w r pat md True es)"
        using Suc.prems(2) False by simp
      then show ?thesis
        using Suc.IH [OF k] by (rule find_entries_below_once [rotated])
    qed
  qed
qed

lemma find_yields_below_once:
  "y \<in> set (find_matching_directories w r pat md True) \<Longrightarrow> below_once r pat y"
  by (rule find_below_once_bounded [OF order_refl])

lemma below_once_no_ancestor:
  assumes "below_once r pat a" "below_once r pat b"
  shows "\<not> is_ancestor a b"
proof
  assume "is_ancestor a b"
  then have sp: "strict_prefix (parts a) (parts b)" by (simp add: is_ancestor_def)
  obtain ra where ra: "parts a = parts r @ ra @ [pat]"
    using assms(1) by (auto simp: below_once_def)
  obtain rb where rb: "parts b = parts r @ rb @ [pat]" "pat \<notin> set rb"
    using assms(2) by (auto simp: below_once_def)
  from sp have "prefix (ra @ [pat]) rb"
    unfolding ra rb by (auto simp: strict_prefix_def prefix_snoc)
  then have "pat \<in> set rb"
    by (auto simp: prefix_def)
  with rb(2) show False by simp
qed

text \<open>
  C4. For every filesystem, root, pattern and depth bound, no path yielded by
  \<^verbatim>\<open>find_matching_directories\<close> (with \<^verbatim>\<open>skip_inside_match\<close> at its default,
  \<open>True\<close>) is a proper ancestor of another yielded path: a yielded directory is not
  entered, so nothing inside it is yielded.
\<close>

theorem find_matching_directories_no_nesting:
  "\<forall>a \<in> set (find_matching_directories w root_dir pattern max_depth True).
     \<forall>b \<in> set (find_matching_directories w root_dir pattern max_depth True).
       \<not> is_ancestor a b"
  using find_yields_below_once [of _ w root_dir pattern max_depth]
    below_once_no_ancestor [of root_dir pattern]
  by blast

lemma sample_find:
  "find_matching_directories sample_world home_path ''node_modules'' 15 True =
     [Path True [''Users'', ''ada'', ''proj'', ''node_modules''],
      Path True [''Users'', ''ada'', ''proj'', ''src'', ''node_modules'']]"
  by code_simp

theorem find_matching_directories_witness:
  "find_matching_directories sample_world home_path ''node_modules'' 15 True =
     [Path True [''Users'', ''ada'', ''proj'', ''node_modules''],
      Path True [''Users'', ''ada'', ''proj'', ''src'', ''node_modules'']]
   \<and> \<not> is_ancestor (Path True [''Users'', ''ada'', ''proj'', ''node_modules''])
                     (Path True [''Users'', ''ada'', ''proj'', ''src'', ''node_modules''])
   \<and> \<not> is_ancestor (Path True [''Users'', ''ada'', ''proj'', ''src'', ''node_modules''])
                     (Path True [''Users'', ''ada'', ''proj'', ''node_modules''])
   \<and> path_is_dir sample_world
         (Path True [''Users'', ''ada'', ''proj'', ''node_modules'', ''pkg'', ''node_modules''])
   \<and> is_ancestor (Path True [''Users'', ''ada'', ''proj'', ''node_modules''])
         (Path True [''Users'', ''ada'', ''proj'', ''node_modules'', ''pkg'', ''node_modules''])"
proof -
  let ?a = "Path True [''Users'', ''ada'', ''proj'', ''node_modules'']"
  let ?b = "Path True [''Users'', ''ada'', ''proj'', ''src'', ''node_modules'']"
  have "\<forall>a \<in> set [?a, ?b]. \<forall>b \<in> set [?a, ?b]. \<not> is_ancestor a b"
    using find_matching_directories_no_nesting [of sample_world home_path "''node_modules''" 15]
    unfolding sample_find .
  then have "\<not> is_ancestor ?a ?b" "\<not> is_ancestor ?b ?a" by simp_all
  moreover have "path_is_dir sample_world
         (Path True [''Users'', ''ada'', ''proj'', ''node_modules'', ''pkg'', ''node_modules''])"
    by code_simp
  moreover have "is_ancestor ?a
         (Path True [''Users'', ''ada'', ''proj'', ''node_modules'', ''pkg'', ''node_modules''])"
    by (simp add: is_ancestor_def)
  ultimately show ?thesis using sample_find by blast
qed

section \<open>Verification: directory sizes\<close>

lemma cadd_simps [simp]: "cadd (a1, a2, a3) (b1, b2, b3) = (a1 + b1, a2 + b2, a3 + b3)"
  by (simp add: cadd_def)

lemma cadd_zero [simp]: "cadd a (0, 0, 0) = a" "cadd (0, 0, 0) a = a"
  by (cases a; simp)+

lemma cadd_assoc: "cadd (cadd a b) c = cadd a (cadd b c)"
  by (cases a; cases b; cases c) simp

lemma scan_entries_Cons:
  "scan_entries w m p d ((name, node) # es) acc =
     scan_entries w m p d es (entry_step w m p d name node acc)"
  by (simp add: entry_step_def)

lemma scan_entries_acc_aux:
  assumes step: "\<And>name node acc. entry_step w m p d name node acc
                    = cadd acc (entry_step w m p d name node (0, 0, 0))"
  shows "scan_entries w m p d es acc = cadd acc (scan_entries w m p d es (0, 0, 0))"
proof (induction es arbitrary: acc)
  case Nil
  show ?case by simp
next
  case (Cons e es)
  obtain name node where e: "e = (name, node)" by (cases e) auto
  let ?s = "entry_step w m p d name node"
  have "scan_entries w m p d (e # es) acc = scan_entries w m p d es (?s acc)"
    by (simp only: e scan_entries_Cons)
  also have "\<dots> = cadd (?s acc) (scan_entries w m p d es (0, 0, 0))"
    by (rule Cons.IH)
  also have "\<dots> = cadd acc (cadd (?s (0, 0, 0)) (scan_entries w m p d es (0, 0, 0)))"
    using step [of name node acc] by (simp only: cadd_assoc)
  also have "cadd (?s (0, 0, 0)) (scan_entries w m p d es (0, 0, 0))
               = scan_entries w m p d es (?s (0, 0, 0))"
    by (rule Cons.IH [symmetric])
  also have "\<dots> = scan_entries w m p d (e # es) (0, 0, 0)"
    by (simp only: e scan_entries_Cons)
  finally show ?case .
qed

lemma entry_step_acc:
  assumes "\<And>acc. scan w m (child p name) (d + 1) acc
              = cadd acc (scan w m (child p name) (d + 1) (0, 0, 0))"
  shows "entry_step w m p d name node acc = cadd acc (entry_step w m p d name node (0, 0, 0))"
proof -
  obtain a b c where acc: "acc = (a, b, c)" by (cases acc) auto
  obtain x y z where r: "scan w m (child p name) (d + 1) (0, 0, 0) = (x, y, z)"
    by (cases "scan w m (child p name) (d + 1) (0, 0, 0)") auto
  show ?thesis
    using assms [of "(a, b, c + 1)"] assms [of "(0, 0, 1)"] r
    by (simp add: entry_step_def acc split: sum.splits)
qed

lemma scan_acc_bounded:
  "nat (m + 1 - d) \<le> k \<Longrightarrow> scan w m p d acc = cadd acc (scan w m p d (0, 0, 0))"
proof (induction k arbitrary: p d acc)
  case 0
  then have "d > m" by simp
  then show ?case by simp
next
  case (Suc k)
  show ?case
  proof (cases "d > m")
    case True
    then show ?thesis by simp
  next
    case False
    then have k: "nat (m + 1 - (d + 1)) \<le> k" using Suc.prems by simp
    have step: "\<And>name node acc. entry_step w m p d name node acc
                    = cadd acc (entry_step w m p d name node (0, 0, 0))"
      by (rule entry_step_acc) (rule Suc.IH [OF k])
    show ?thesis
    proof (cases "scandir w p")
      case (Inl e)
      then show ?thesis using False by simp
    next
      case (Inr es)
      then show ?thesis using False scan_entries_acc_aux [OF step, of es acc] by simp
    qed
  qed
qed

lemma scan_acc: "scan w m p d acc = cadd acc (scan w m p d (0, 0, 0))"
  by (rule scan_acc_bounded [OF order_refl])

lemma entry_step_acc': "entry_step w m p d name node acc = cadd acc (entry_step w m p d name node (0, 0, 0))"
  by (rule entry_step_acc) (rule scan_acc)

lemma scan_entries_acc:
  "scan_entries w m p d es acc = cadd acc (scan_entries w m p d es (0, 0, 0))"
  by (rule scan_entries_acc_aux) (rule entry_step_acc')

lemma scan_entries_shift_aux:
  assumes "\<And>name acc. scan w (m + j) (child p name) (d + j + 1) acc = scan w m (child p name) (d + 1) acc"
  shows "scan_entries w (m + j) p (d + j) es acc = scan_entries w m p d es acc"
proof (induction es arbitrary: acc)
  case Nil
  show ?case by simp
next
  case (Cons e es)
  obtain name node where e: "e = (name, node)" by (cases e) auto
  have "entry_step w (m + j) p (d + j) name node acc = entry_step w m p d name node acc"
    using assms [of name] by (simp add: entry_step_def split: prod.splits)
  then show ?case
    by (simp only: e scan_entries_Cons Cons.IH)
qed

lemma scan_shift_bounded:
  "nat (m + 1 - d) \<le> k \<Longrightarrow> scan w (m + j) p (d + j) acc = scan w m p d acc"
proof (induction k arbitrary: p d acc)
  case 0
  then have "d > m" by simp
  then show ?case by simp
next
  case (Suc k)
  show ?case
  proof (cases "d > m")
    case True
    then show ?thesis by simp
  next
    case False
    then have k: "nat (m + 1 - (d + 1)) \<le> k" using Suc.prems by simp
    have sub: "\<And>name acc. scan w (m + j) (child p name) (d + j + 1) acc
                 = scan w m (child p name) (d + 1) acc"
      using Suc.IH [OF k] by (simp add: add.assoc add.commute add.left_commute)
    show ?thesis
    proof (cases "scandir w p")
      case (Inl e)
      then show ?thesis using False by simp
    next
      case (Inr es)
      then show ?thesis using False scan_entries_shift_aux [OF sub, of es acc] by simp
    qed
  qed
qed

lemma scan_shift: "scan w m p (d + 1) acc = scan w (m - 1) p d acc"
  using scan_shift_bounded [OF order_refl, where m = "m - 1" and d = d and w = w and j = 1 and p = p and acc = acc] by simp

lemma entry_step_zero:
  "entry_step w m D 0 n node (0, 0, 0) = entry_size w D (m - 1) (n, node)"
proof (cases node)
  case (Dir l es)
  have a: "scan w m (child D n) 1 (0, 0, 1)
          = cadd (0, 0, 1) (scan w m (child D n) 1 (0, 0, 0))"
    by (rule scan_acc)
  have b: "scan w m (child D n) 1 (0, 0, 0) = scan w (m - 1) (child D n) 0 (0, 0, 0)"
    using scan_shift [of w m "child D n" 0 "(0, 0, 0)"] by (simp del: scan.simps)
  show ?thesis
    unfolding entry_step_def entry_size_def Dir get_directory_size_fast_def
    using a b by (simp del: scan.simps)
qed (simp_all add: entry_step_def entry_size_def)

lemma scan_entries_total:
  "scan_entries w m D 0 es acc = cadd acc (foldr cadd (map (entry_size w D (m - 1)) es) (0, 0, 0))"
proof (induction es arbitrary: acc)
  case Nil
  show ?case by simp
next
  case (Cons e es)
  obtain n node where e: "e = (n, node)" by (cases e) auto
  have "scan_entries w m D 0 (e # es) acc
          = cadd (entry_step w m D 0 n node acc) (foldr cadd (map (entry_size w D (m - 1)) es) (0, 0, 0))"
    by (simp only: e scan_entries_Cons Cons.IH)
  also have "entry_step w m D 0 n node acc = cadd acc (entry_size w D (m - 1) (n, node))"
    using entry_step_acc' [of w m D 0 n node acc] by (simp only: entry_step_zero)
  finally show ?case by (simp add: e cadd_assoc)
qed

lemma fst_foldr_cadd: "fst (foldr cadd xs (0, 0, 0)) = sum_list (map fst xs)"
  by (induction xs) (auto simp: cadd_def split: prod.splits)

text \<open>
  C5 (as amended). For every directory \<open>D\<close> that can be listed and every depth bound
  \<open>m \<ge> 0\<close>, \<^verbatim>\<open>get_directory_size_fast(D, m)\<close> is the sum, over the entries of \<open>D\<close>,
  of the sizes of the regular files and of \<^verbatim>\<open>get_directory_size_fast(S, m - 1)\<close> for
  the immediate subdirectories \<open>S\<close> (each also counted as one directory): the
  subdirectories are measured with the depth that is left. Symbolic links are not
  followed and contribute nothing, as do entries whose size cannot be read; a
  directory that cannot be listed, and any directory under a negative bound, has
  size zero.
\<close>

theorem get_directory_size_fast_structural:
  "(scandir w D = Inr es \<longrightarrow> 0 \<le> m \<longrightarrow>
      get_directory_size_fast w D m = foldr cadd (map (entry_size w D (m - 1)) es) (0, 0, 0)
      \<and> fst (get_directory_size_fast w D m) = sum_list (map (\<lambda>e. fst (entry_size w D (m - 1) e)) es))
   \<and> (m < 0 \<longrightarrow> get_directory_size_fast w D m = (0, 0, 0))
   \<and> ((\<exists>e. scandir w D = Inl e) \<longrightarrow> get_directory_size_fast w D m = (0, 0, 0))"
proof (intro conjI impI)
  assume s: "scandir w D = Inr es" and m: "0 \<le> m"
  have "get_directory_size_fast w D m = scan_entries w m D 0 es (0, 0, 0)"
    using s m by (simp add: get_directory_size_fast_def)
  then show t: "get_directory_size_fast w D m = foldr cadd (map (entry_size w D (m - 1)) es) (0, 0, 0)"
    by (simp add: scan_entries_total)
  show "fst (get_directory_size_fast w D m) = sum_list (map (\<lambda>e. fst (entry_size w D (m - 1) e)) es)"
    unfolding t fst_foldr_cadd by (simp add: comp_def)
next
  assume "m < 0"
  then show "get_directory_size_fast w D m = (0, 0, 0)"
    by (simp add: get_directory_size_fast_def)
next
  assume "\<exists>e. scandir w D = Inl e"
  then show "get_directory_size_fast w D m = (0, 0, 0)"
    by (auto simp: get_directory_size_fast_def)
qed

text \<open>
  With the same bound on both sides the equation of the claim fails: under the default
  bound 20 the root of the chain has size 0, and its only subdirectory has size 1.
\<close>

theorem get_directory_size_fast_counterexample:
  "scandir deep_world (Path True []) = Inr [(''d'', deep_chain 20)]
   \<and> get_directory_size_fast deep_world (Path True []) 20 = (0, 0, 21)
   \<and> get_directory_size_fast deep_world (child (Path True []) ''d'') 20 = (1, 1, 20)"
  by code_simp

lemma sample_pip:
  "scandir sample_world (Path True [''Users'', ''ada'', ''Library'', ''Caches'', ''pip'']) =
     Inr [(''a.whl'', File 6), (''http'', Dir True [(''b'', File 4)]),
          (''link'', Symlink [''tmp'']), (''gone'', Stale)]"
  by code_simp

lemma sample_locked:
  "scandir sample_world (Path True [''Users'', ''ada'', ''.npm'', ''_logs'', ''root'']) =
     Inl (PermissionError ''[Errno 13] Permission denied: /Users/ada/.npm/_logs/root'')"
  by code_simp

theorem get_directory_size_fast_witness:
  "scandir sample_world (Path True [''Users'', ''ada'', ''Library'', ''Caches'', ''pip'']) =
     Inr [(''a.whl'', File 6), (''http'', Dir True [(''b'', File 4)]),
          (''link'', Symlink [''tmp'']), (''gone'', Stale)]
   \<and> (0::int) \<le> 20
   \<and> get_directory_size_fast sample_world
        (child (Path True [''Users'', ''ada'', ''Library'', ''Caches'', ''pip'']) ''http'') 19 = (4, 1, 0)
   \<and> get_directory_size_fast sample_world
        (Path True [''Users'', ''ada'', ''Library'', ''Caches'', ''pip'']) 20 = (10, 2, 1)
   \<and> get_directory_size_fast sample_world
        (Path True [''Users'', ''ada'', ''Library'', ''Caches'', ''pip'']) (- 1) = (0, 0, 0)
   \<and> scandir sample_world (Path True [''Users'', ''ada'', ''.npm'', ''_logs'', ''root'']) =
        Inl (PermissionError ''[Errno 13] Permission denied: /Users/ada/.npm/_logs/root'')
   \<and> get_directory_size_fast sample_world
        (Path True [''Users'', ''ada'', ''.npm'', ''_logs'', ''root'']) 20 = (0, 0, 0)"
proof -
  let ?pip = "Path True [''Users'', ''ada'', ''Library'', ''Caches'', ''pip'']"
  let ?es = "[(''a.whl'', File 6), (''http'', Dir True [(''b'', File 4)]),
          (''link'', Symlink [''tmp'']), (''gone'', Stale)]"
  have sub: "get_directory_size_fast sample_world (child ?pip ''http'') 19 = (4, 1, 0)"
    by code_simp
  have "get_directory_size_fast sample_world ?pip 20
          = foldr cadd (map (entry_size sample_world ?pip (20 - 1)) ?es) (0, 0, 0)"
    using get_directory_size_fast_structural [of sample_world ?pip ?es 20] sample_pip by simp
  then have "get_directory_size_fast sample_world ?pip 20 = (10, 2, 1)"
    using sub by (simp add: entry_size_def)
  moreover have "get_directory_size_fast sample_world ?pip (- 1) = (0, 0, 0)"
    using get_directory_size_fast_structural [of sample_world ?pip ?es "- 1"] by simp
  moreover have "get_directory_size_fast sample_world
        (Path True [''Users'', ''ada'', ''.npm'', ''_logs'', ''root'']) 20 = (0, 0, 0)"
    using get_directory_size_fast_structural
      [of sample_world "Path True [''Users'', ''ada'', ''.npm'', ''_logs'', ''root'']" "[]" 20]
      sample_locked
    by blast
  ultimately show ?thesis using sub sample_pip sample_locked by simp
qed

section \<open>Verification: the size cache\<close>

lemma resolve_fs_cong:
  assumes "fs w' = fs w" "cwd w' = cwd w"
  shows "resolve w' p = resolve w p"
  unfolding resolve_def abs_parts_def assms ..

lemma scandir_fs_cong:
  assumes "fs w' = fs w" "cwd w' = cwd w"
  shows "scandir w' p = scandir w p"
  unfolding scandir_def resolve_fs_cong [OF assms] ..

lemma scan_entries_cong_aux:
  assumes "\<And>name acc. scan w' m (child p name) (d + 1) acc = scan w m (child p name) (d + 1) acc"
  shows "scan_entries w' m p d es acc = scan_entries w m p d es acc"
proof (induction es arbitrary: acc)
  case Nil
  show ?case by simp
next
  case (Cons e es)
  obtain name node where e: "e = (name, node)" by (cases e) auto
  have "entry_step w' m p d name node acc = entry_step w m p d name node acc"
    using assms [of name] by (simp add: entry_step_def split: prod.splits)
  then show ?case
    by (simp only: e scan_entries_Cons Cons.IH)
qed

lemma scan_fs_cong_bounded:
  assumes "fs w' = fs w" "cwd w' = cwd w"
  shows "nat (m + 1 - d) \<le> k \<Longrightarrow> scan w' m p d acc = scan w m p d acc"
proof (induction k arbitrary: p d acc)
  case 0
  then have "d > m" by simp
  then show ?case by simp
next
  case (Suc k)
  show ?case
  proof (cases "d > m")
    case True
    then show ?thesis by simp
  next
    case False
    then have k: "nat (m + 1 - (d + 1)) \<le> k" using Suc.prems by simp
    have sub: "\<And>name acc. scan w' m (child p name) (d + 1) acc = scan w m (child p name) (d + 1) acc"
      by (rule Suc.IH [OF k])
    show ?thesis
    proof (cases "scandir w p")
      case (Inl e)
      then show ?thesis using False scandir_fs_cong [OF assms, of p] by simp
    next
      case (Inr es)
      then show ?thesis
        using False scandir_fs_cong [OF assms, of p] scan_entries_cong_aux [OF sub, of es acc]
        by simp
    qed
  qed
qed

lemma get_directory_size_fast_fs_cong:
  "fs w' = fs w \<Longrightarrow> cwd w' = cwd w \<Longrightarrow>
     get_directory_size_fast w' p m = get_directory_size_fast w p m"
  unfolding get_directory_size_fast_def by (rule scan_fs_cong_bounded [OF _ _ order_refl])

lemma cached_hit:
  assumes "size_cache w (path_str p) = Some (s, f, d, t)" "clock w (ticks w) - t < 300"
  shows "get_directory_size_cached p m w = ((s, f, d), w\<lparr>ticks := ticks w + 1\<rparr>)"
  using assms by (simp add: get_directory_size_cached_def time_time_def CACHE_TTL_def Let_def)

lemma cached_miss:
  assumes "size_cache w (path_str p) = None
           \<or> (\<exists>s f d t. size_cache w (path_str p) = Some (s, f, d, t) \<and> 300 \<le> clock w (ticks w) - t)"
  shows "get_directory_size_cached p m w =
           (get_directory_size_fast w p m,
            w\<lparr>ticks := ticks w + 1,
              size_cache := (size_cache w)(path_str p \<mapsto>
                 (fst (get_directory_size_fast w p m), fst (snd (get_directory_size_fast w p m)),
                  snd (snd (get_directory_size_fast w p m)), clock w (ticks w)))\<rparr>)"
proof -
  have c: "\<And>k. get_directory_size_fast (w\<lparr>ticks := k\<rparr>) p m = get_directory_size_fast w p m"
    by (rule get_directory_size_fast_fs_cong) simp_all
  obtain a b e where r: "get_directory_size_fast w p m = (a, b, e)"
    by (cases "get_directory_size_fast w p m") auto
  from assms show ?thesis
  proof
    assume "size_cache w (path_str p) = None"
    then show ?thesis
      by (simp add: get_directory_size_cached_def time_time_def CACHE_TTL_def Let_def c r)
  next
    assume "\<exists>s f d t. size_cache w (path_str p) = Some (s, f, d, t) \<and> 300 \<le> clock w (ticks w) - t"
    then obtain s f d t where "size_cache w (path_str p) = Some (s, f, d, t)"
        "300 \<le> clock w (ticks w) - t" by blast
    then show ?thesis
      by (simp add: get_directory_size_cached_def time_time_def CACHE_TTL_def Let_def c r)
  qed
qed

lemma cached_after:
  "\<exists>t1. size_cache (snd (get_directory_size_cached p m w)) (path_str p)
           = Some (cache_entry (fst (get_directory_size_cached p m w)) t1)"
proof (cases "size_cache w (path_str p)")
  case None
  show ?thesis
    unfolding cached_miss [of w p m, OF disjI1, OF None] by (simp add: cache_entry_def)
next
  case (Some v)
  obtain s f d t where v: "v = (s, f, d, t)" by (cases v) auto
  show ?thesis
  proof (cases "clock w (ticks w) - t < 300")
    case True
    show ?thesis
      unfolding cached_hit [of w p s f d t m, OF Some [unfolded v] True]
      using Some v by (simp add: cache_entry_def)
  next
    case False
    then have "\<exists>s f d t. size_cache w (path_str p) = Some (s, f, d, t) \<and> 300 \<le> clock w (ticks w) - t"
      using Some v by auto
    then show ?thesis
      using cached_miss [of w p m, OF disjI2]
      by (simp add: cache_entry_def)
  qed
qed

text \<open>
  C6. A cache entry younger than 300 seconds is returned as it is, whatever the
  filesystem holds, and the cache is left unchanged; an entry whose age has reached
  300 seconds is not used: the directory is measured again and the entry replaced by
  the new measure with the current time. After any call the cache holds the returned
  triple, and every later call for the same path that finds this entry at an age
  below 300 seconds returns the same triple.
\<close>

theorem get_directory_size_cached_ttl:
  "(size_cache w (path_str p) = Some (s, f, d, t) \<and> clock w (ticks w) - t < 300 \<longrightarrow>
      get_directory_size_cached p m w = ((s, f, d), w\<lparr>ticks := ticks w + 1\<rparr>))
   \<and> (size_cache w (path_str p) = Some (s, f, d, t) \<and> 300 \<le> clock w (ticks w) - t \<longrightarrow>
      fst (get_directory_size_cached p m w) = get_directory_size_fast w p m
      \<and> size_cache (snd (get_directory_size_cached p m w)) (path_str p)
           = Some (cache_entry (get_directory_size_fast w p m) (clock w (ticks w))))
   \<and> (\<exists>t1. size_cache (snd (get_directory_size_cached p m w)) (path_str p)
             = Some (cache_entry (fst (get_directory_size_cached p m w)) t1)
          \<and> (\<forall>w2 m2. size_cache w2 (path_str p)
                         = size_cache (snd (get_directory_size_cached p m w)) (path_str p)
                       \<and> clock w2 (ticks w2) - t1 < 300 \<longrightarrow>
                 fst (get_directory_size_cached p m2 w2) = fst (get_directory_size_cached p m w)))"
proof (intro conjI impI)
  assume "size_cache w (path_str p) = Some (s, f, d, t) \<and> clock w (ticks w) - t < 300"
  then show "get_directory_size_cached p m w = ((s, f, d), w\<lparr>ticks := ticks w + 1\<rparr>)"
    using cached_hit by blast
next
  assume a: "size_cache w (path_str p) = Some (s, f, d, t) \<and> 300 \<le> clock w (ticks w) - t"
  then have e: "size_cache w (path_str p) = None
           \<or> (\<exists>s f d t. size_cache w (path_str p) = Some (s, f, d, t) \<and> 300 \<le> clock w (ticks w) - t)"
    by blast
  show "fst (get_directory_size_cached p m w) = get_directory_size_fast w p m"
    unfolding cached_miss [OF e] by simp
  show "size_cache (snd (get_directory_size_cached p m w)) (path_str p)
           = Some (cache_entry (get_directory_size_fast w p m) (clock w (ticks w)))"
    unfolding cached_miss [OF e] by (simp add: cache_entry_def)
next
  obtain t1 where t1: "size_cache (snd (get_directory_size_cached p m w)) (path_str p)
           = Some (cache_entry (fst (get_directory_size_cached p m w)) t1)"
    using cached_after by blast
  have "fst (get_directory_size_cached p m2 w2) = fst (get_directory_size_cached p m w)"
    if h: "size_cache w2 (path_str p) = size_cache (snd (get_directory_size_cached p m w)) (path_str p)
           \<and> clock w2 (ticks w2) - t1 < 300" for w2 m2
  proof -
    obtain a b c where r: "fst (get_directory_size_cached p m w) = (a, b, c)"
      by (cases "fst (get_directory_size_cached p m w)") auto
    have "size_cache w2 (path_str p) = Some (a, b, c, t1)"
      using h t1 r by (simp add: cache_entry_def)
    then show ?thesis
      using cached_hit [of w2 p a b c t1 m2] h r by simp
  qed
  with t1 show "\<exists>t1. size_cache (snd (get_directory_size_cached p m w)) (path_str p)
             = Some (cache_entry (fst (get_directory_size_cached p m w)) t1)
          \<and> (\<forall>w2 m2. size_cache w2 (path_str p)
                         = size_cache (snd (get_directory_size_cached p m w)) (path_str p)
                       \<and> clock w2 (ticks w2) - t1 < 300 \<longrightarrow>
                 fst (get_directory_size_cached p m2 w2) = fst (get_directory_size_cached p m w))"
    by blast
qed

lemma sample_pip_size: "get_directory_size_fast sample_world pip_path 20 = (10, 2, 1)"
  by code_simp

lemma sample_first_scan:
  "get_directory_size_cached pip_path 20 sample_world =
     ((10, 2, 1), sample_world\<lparr>ticks := 1,
         size_cache := [path_str pip_path \<mapsto> (10, 2, 1, 1000)]\<rparr>)"
proof -
  have "size_cache sample_world (path_str pip_path) = None"
    by (simp add: sample_world_def)
  then show ?thesis
    using cached_miss [of sample_world pip_path 20]
    by (simp add: sample_pip_size) (simp add: sample_world_def)
qed

lemma empty_fs_size:
  "fs w = Dir True [] \<Longrightarrow> get_directory_size_fast w pip_path m = (0, 0, 0)"
  by (simp add: get_directory_size_fast_def scandir_def resolve_def abs_parts_def pip_path_def)

theorem get_directory_size_cached_witness:
  "fst (get_directory_size_cached pip_path 20 sample_world) = (10, 2, 1)
   \<and> clock after_first_scan (ticks after_first_scan) - 1000 < 300
   \<and> fst (get_directory_size_cached pip_path 20 (after_first_scan\<lparr>fs := Dir True []\<rparr>)) = (10, 2, 1)
   \<and> 300 \<le> clock after_first_scan 3 - 1000
   \<and> fst (get_directory_size_cached pip_path 20 (after_first_scan\<lparr>fs := Dir True [], ticks := 3\<rparr>))
        = (0, 0, 0)
   \<and> size_cache after_first_scan (path_str pip_path) = Some (10, 2, 1, 1000)
   \<and> get_directory_size_cached pip_path 7 (after_first_scan\<lparr>fs := Dir True []\<rparr>)
        = ((10, 2, 1), after_first_scan\<lparr>fs := Dir True [], ticks := 2\<rparr>)"
proof -
  let ?w2 = "after_first_scan\<lparr>fs := Dir True []\<rparr>"
  let ?w3 = "after_first_scan\<lparr>fs := Dir True [], ticks := 3\<rparr>"
  have after: "after_first_scan = sample_world\<lparr>ticks := 1,
         size_cache := [path_str pip_path \<mapsto> (10, 2, 1, 1000)]\<rparr>"
    by (simp add: after_first_scan_def sample_first_scan)
  have r1: "fst (get_directory_size_cached pip_path 20 sample_world) = (10, 2, 1)"
    by (simp add: sample_first_scan)
  have c1: "clock after_first_scan (ticks after_first_scan) - 1000 < 300"
    by (simp add: after sample_world_def)
  have c3: "300 \<le> clock after_first_scan 3 - 1000"
    by (simp add: after sample_world_def)
  obtain t1 where t1: "size_cache after_first_scan (path_str pip_path) = Some (cache_entry (10, 2, 1) t1)"
    and again: "\<And>w2 m2. size_cache w2 (path_str pip_path) = size_cache after_first_scan (path_str pip_path)
                       \<and> clock w2 (ticks w2) - t1 < 300 \<Longrightarrow>
                 fst (get_directory_size_cached pip_path m2 w2) = (10, 2, 1)"
    using get_directory_size_cached_ttl [of sample_world pip_path 0 0 0 0 20]
    unfolding after_first_scan_def [symmetric] r1 by blast
  have "t1 = 1000" using t1 by (simp add: after cache_entry_def)
  then have r2: "fst (get_directory_size_cached pip_path 20 ?w2) = (10, 2, 1)"
    using again [of ?w2 20] c1 by simp
  have "size_cache ?w3 (path_str pip_path) = Some (10, 2, 1, 1000) \<and> 300 \<le> clock ?w3 (ticks ?w3) - 1000"
    using c3 by (simp add: after)
  then have "fst (get_directory_size_cached pip_path 20 ?w3) = get_directory_size_fast ?w3 pip_path 20"
    using get_directory_size_cached_ttl [of ?w3 pip_path 10 2 1 1000 20] by blast
  then have r3: "fst (get_directory_size_cached pip_path 20 ?w3) = (0, 0, 0)"
    by (simp add: empty_fs_size)
  have e: "size_cache after_first_scan (path_str pip_path) = Some (10, 2, 1, 1000)"
    by (simp add: after)
  have "size_cache ?w2 (path_str pip_path) = Some (10, 2, 1, 1000)
          \<and> clock ?w2 (ticks ?w2) - 1000 < 300"
    using c1 by (simp add: after)
  then have "get_directory_size_cached pip_path 7 ?w2 = ((10, 2, 1), ?w2\<lparr>ticks := ticks ?w2 + 1\<rparr>)"
    using get_directory_size_cached_ttl [of ?w2 pip_path 10 2 1 1000 7] by blast
  then have r4: "get_directory_size_cached pip_path 7 ?w2
                   = ((10, 2, 1), after_first_scan\<lparr>fs := Dir True [], ticks := 2\<rparr>)"
    by (simp add: after)
  from r1 c1 r2 c3 r3 e r4 show ?thesis by blast
qed

section \<open>Verification: aggregation\<close>

lemma truthy_errors_filter:
  "truthy_errors rs = filter (\<lambda>e. e \<noteq> []) (List.map_filter error rs)"
  by (induction rs) (auto simp: List.map_filter_simps split: option.splits)

lemma first_path_find:
  "(case map path (filter P rs) of p # _ \<Rightarrow> p | [] \<Rightarrow> d) =
   (case find P rs of Some r \<Rightarrow> path r | None \<Rightarrow> d)"
  by (induction rs) auto

lemma find_cong_set: "(\<And>r. r \<in> set rs \<Longrightarrow> P r = Q r) \<Longrightarrow> find P rs = find Q rs"
  by (induction rs) auto

text \<open>
  C7. \<^verbatim>\<open>aggregate_category_results\<close> returns nothing for the empty list; for a
  single result the totals are those of the result; for a non-empty list of results
  whose sizes are non-negative (the invariant of a scan result) the totals are the sums
  over the inputs, \<^verbatim>\<open>exists\<close> holds iff some input exists, the path is the path of
  the first input that exists with a non-zero size (the first input's path when there
  is none), and the error is the non-empty input errors joined with \<^verbatim>\<open>"; "\<close>, absent
  when there are none.
\<close>

theorem aggregate_category_results_spec:
  "aggregate_category_results [] = None
   \<and> (\<exists>a. aggregate_category_results [r] = Some a
          \<and> size_bytes a = size_bytes r \<and> file_count a = file_count r
          \<and> dir_count a = dir_count r)
   \<and> (rs \<noteq> [] \<longrightarrow> (\<forall>x \<in> set rs. 0 \<le> size_bytes x) \<longrightarrow>
        (\<exists>a. aggregate_category_results rs = Some a
          \<and> size_bytes a = sum_list (map size_bytes rs)
          \<and> file_count a = sum_list (map file_count rs)
          \<and> dir_count a = sum_list (map dir_count rs)
          \<and> (exists a \<longleftrightarrow> (\<exists>x \<in> set rs. exists x))
          \<and> path a = spec_display_path rs
          \<and> error a = spec_errors rs))"
proof (intro conjI impI)
  show "aggregate_category_results [] = None"
    by (simp add: aggregate_category_results_def)
  show "\<exists>a. aggregate_category_results [r] = Some a
          \<and> size_bytes a = size_bytes r \<and> file_count a = file_count r
          \<and> dir_count a = dir_count r"
    by (simp add: aggregate_category_results_def Let_def)
next
  assume ne: "rs \<noteq> []" and nonneg: "\<forall>x \<in> set rs. 0 \<le> size_bytes x"
  then obtain f tl where rs: "rs = f # tl" by (cases rs) auto
  have "find (\<lambda>r. exists r \<and> size_bytes r > 0) rs = find (\<lambda>r. exists r \<and> size_bytes r \<noteq> 0) rs"
    using nonneg by (intro find_cong_set) force
  moreover have "hd rs = f" by (simp add: rs)
  ultimately have p: "(case map path (filter (\<lambda>r. exists r \<and> size_bytes r > 0) rs) of
                  p # _ \<Rightarrow> p | [] \<Rightarrow> path f) = spec_display_path rs"
    unfolding first_path_find spec_display_path_def by (simp split: option.split)
  have e: "(if truthy_errors rs \<noteq> [] then Some (join ''; '' (truthy_errors rs)) else None)
             = spec_errors rs"
    by (simp add: spec_errors_def truthy_errors_filter Let_def)
  have x: "list_ex exists rs \<longleftrightarrow> (\<exists>x \<in> set rs. exists x)"
    by (simp add: list_ex_iff)
  have "aggregate_category_results rs =
     Some \<lparr> category_id = category_id f, category_name = category_name f,
            path = spec_display_path rs,
            size_bytes = sum_list (map size_bytes rs),
            file_count = sum_list (map file_count rs),
            dir_count = sum_list (map dir_count rs),
            risk_level = risk_level f,
            exists = (\<exists>x \<in> set rs. exists x),
            error = spec_errors rs \<rparr>"
  proof -
    have "aggregate_category_results (f # tl) =
       Some \<lparr> category_id = category_id f, category_name = category_name f,
            path = (case map path (filter (\<lambda>r. exists r \<and> size_bytes r > 0) (f # tl)) of
                  p # _ \<Rightarrow> p | [] \<Rightarrow> path f),
            size_bytes = sum_list (map size_bytes (f # tl)),
            file_count = sum_list (map file_count (f # tl)),
            dir_count = sum_list (map dir_count (f # tl)),
            risk_level = risk_level f,
            exists = list_ex exists (f # tl),
            error = (if truthy_errors (f # tl) \<noteq> []
                     then Some (join ''; '' (truthy_errors (f # tl))) else None) \<rparr>"
      unfolding aggregate_category_results_def Let_def list.case ..
    then show ?thesis
      unfolding rs [symmetric] p e x .
  qed
  then show "\<exists>a. aggregate_category_results rs = Some a
          \<and> size_bytes a = sum_list (map size_bytes rs)
          \<and> file_count a = sum_list (map file_count rs)
          \<and> dir_count a = sum_list (map dir_count rs)
          \<and> (exists a \<longleftrightarrow> (\<exists>x \<in> set rs. exists x))
          \<and> path a = spec_display_path rs
          \<and> error a = spec_errors rs"
    by simp
qed

theorem aggregate_category_results_witness:
  "sample_scans \<noteq> [] \<and> list_all (\<lambda>x. 0 \<le> size_bytes x) sample_scans
   \<and> (\<exists>a. aggregate_category_results sample_scans = Some a
        \<and> size_bytes a = 21 \<and> file_count a = 8 \<and> dir_count a = 4 \<and> exists a
        \<and> path a = ''/c'' \<and> error a = Some ''x; y'')"
proof -
  have h: "sample_scans \<noteq> [] \<and> (\<forall>x \<in> set sample_scans. 0 \<le> size_bytes x)"
    by (simp add: sample_scans_def sample_scan_def)
  from aggregate_category_results_spec [of "hd sample_scans" sample_scans] h
  obtain a where a: "aggregate_category_results sample_scans = Some a"
      "size_bytes a = sum_list (map size_bytes sample_scans)"
      "file_count a = sum_list (map file_count sample_scans)"
      "dir_count a = sum_list (map dir_count sample_scans)"
      "exists a \<longleftrightarrow> (\<exists>x \<in> set sample_scans. exists x)"
      "path a = spec_display_path sample_scans"
      "error a = spec_errors sample_scans"
    by blast
  have "size_bytes a = 21" "file_count a = 8" "dir_count a = 4" "exists a"
       "path a = ''/c''" "error a = Some ''x; y''"
    using a(2-7)
    by (simp_all add: sample_scans_def sample_scan_def spec_display_path_def spec_errors_def
         List.map_filter_simps)
  with a(1) h show ?thesis unfolding list_all_iff by blast
qed

section \<open>Verification: deleting a path\<close>

lemma cached_frame:
  "fs (snd (get_directory_size_cached p m w)) = fs w"
  "cwd (snd (get_directory_size_cached p m w)) = cwd w"
  by (simp_all add: get_directory_size_cached_def time_time_def Let_def
        split: option.splits prod.splits)

lemma get_directory_size_frame:
  "fs (snd (get_directory_size p w)) = fs w"
  "cwd (snd (get_directory_size p w)) = cwd w"
  by (simp_all add: get_directory_size_def cached_frame)

lemma delete_error_zero: "fst (delete_error e) = 0 \<and> fst (snd (delete_error e)) = 0
    \<and> snd (snd (delete_error e)) \<noteq> None"
  by (cases e) simp_all

lemma delete_path_dry_frame:
  "fs (snd (delete_path p True w)) = fs w \<and> cwd (snd (delete_path p True w)) = cwd w"
proof (cases "path_exists w p")
  case False
  then show ?thesis by (simp add: delete_path_def)
next
  case True
  show ?thesis
  proof (cases "path_is_file w p")
    case f: True
    then show ?thesis using True
      by (simp add: delete_path_def Let_def split: sum.splits)
  next
    case f: False
    obtain sz files dirs w1 where g: "get_directory_size p w = ((sz, files, dirs), w1)"
      by (metis prod.exhaust)
    have "fs w1 = fs w" "cwd w1 = cwd w"
      using get_directory_size_frame [of p w] g by simp_all
    then show ?thesis using True f g
      by (simp add: delete_path_def Let_def)
  qed
qed

lemma delete_path_agree:
  assumes "snd (snd (fst (delete_path p False w))) = None"
  shows "fst (delete_path p True w) = fst (delete_path p False w)"
proof (cases "path_exists w p")
  case False
  then show ?thesis by (simp add: delete_path_def)
next
  case True
  show ?thesis
  proof (cases "path_is_file w p")
    case f: True
    show ?thesis
    proof (cases "stat_size w p")
      case (Inl e)
      then show ?thesis using True f by (simp add: delete_path_def Let_def)
    next
      case (Inr n)
      obtain err w2 where u: "unlink w p = (err, w2)" by (metis prod.exhaust)
      show ?thesis
      proof (cases err)
        case None
        then show ?thesis using True f Inr u by (simp add: delete_path_def Let_def)
      next
        case (Some e)
        then show ?thesis using True f Inr u assms delete_error_zero [of e]
          by (simp add: delete_path_def Let_def)
      qed
    qed
  next
    case f: False
    obtain sz files dirs w1 where g: "get_directory_size p w = ((sz, files, dirs), w1)"
      by (metis prod.exhaust)
    obtain err w2 where u: "(if path_is_file w1 p then unlink w1 p else rmtree w1 p) = (err, w2)"
      by (metis prod.exhaust)
    show ?thesis
    proof (cases err)
      case None
      then show ?thesis using True f g u by (simp add: delete_path_def Let_def)
    next
      case (Some e)
      then show ?thesis using True f g u assms delete_error_zero [of e]
        by (simp add: delete_path_def Let_def)
    qed
  qed
qed

lemma delete_path_error_zero:
  assumes "snd (snd (fst (delete_path p dry w))) \<noteq> None"
  shows "fst (fst (delete_path p dry w)) = 0 \<and> fst (snd (fst (delete_path p dry w))) = 0"
proof (cases "path_exists w p")
  case False
  then show ?thesis by (simp add: delete_path_def)
next
  case True
  show ?thesis
  proof (cases "path_is_file w p")
    case f: True
    show ?thesis
    proof (cases "stat_size w p")
      case (Inl e)
      then show ?thesis using True f delete_error_zero [of e] by (simp add: delete_path_def Let_def)
    next
      case (Inr n)
      obtain err w2 where u: "unlink w p = (err, w2)" by (metis prod.exhaust)
      show ?thesis
      proof (cases err)
        case None
        then show ?thesis using True f Inr u assms by (simp add: delete_path_def Let_def split: if_splits)
      next
        case (Some e)
        then show ?thesis using True f Inr u assms delete_error_zero [of e]
          by (simp add: delete_path_def Let_def split: if_splits)
      qed
    qed
  next
    case f: False
    obtain sz files dirs w1 where g: "get_directory_size p w = ((sz, files, dirs), w1)"
      by (metis prod.exhaust)
    obtain err w2 where u: "(if path_is_file w1 p then unlink w1 p else rmtree w1 p) = (err, w2)"
      by (metis prod.exhaust)
    show ?thesis
    proof (cases err)
      case None
      then show ?thesis using True f g u assms by (simp add: delete_path_def Let_def split: if_splits)
    next
      case (Some e)
      then show ?thesis using True f g u assms delete_error_zero [of e]
        by (simp add: delete_path_def Let_def split: if_splits)
    qed
  qed
qed

text \<open>
  C8 (as amended). \<^verbatim>\<open>delete_path\<close> on a path that does not exist returns
  \<open>(0, 0, None)\<close> and changes nothing. With \<^verbatim>\<open>dry_run=True\<close> it leaves the filesystem
  as it is, for every path. Whenever the call with \<^verbatim>\<open>dry_run=False\<close> on the same
  state reports no error, the dry run reports the same bytes and files; a call that
  reports an error reports zero bytes and zero files.
\<close>

theorem delete_path_dry_run:
  "(\<not> path_exists w p \<longrightarrow> delete_path p dry w = ((0, 0, None), w))
   \<and> fs (snd (delete_path p True w)) = fs w
   \<and> cwd (snd (delete_path p True w)) = cwd w
   \<and> (snd (snd (fst (delete_path p False w))) = None \<longrightarrow>
        fst (delete_path p True w) = fst (delete_path p False w))
   \<and> (snd (snd (fst (delete_path p dry w))) \<noteq> None \<longrightarrow>
        fst (fst (delete_path p dry w)) = 0 \<and> fst (snd (fst (delete_path p dry w))) = 0)"
  using delete_path_dry_frame [of p w] delete_path_agree [of p w] delete_path_error_zero [of p dry w]
  by (simp add: delete_path_def)

text \<open>
  The claim as first stated fails where the deletion fails: the log directory holds a
  directory that cannot be listed, so the dry run measures 3 bytes in 1 file while the
  real run, whose \<^verbatim>\<open>rmtree\<close> raises \<^verbatim>\<open>PermissionError\<close>, reports \<open>(0, 0)\<close> and the
  error.
\<close>

theorem delete_path_counterexample:
  "path_exists sample_world logs_path
   \<and> fst (delete_path logs_path True sample_world) = (3, 1, None)
   \<and> fst (delete_path logs_path False sample_world) =
       (0, 0, Some ''Permission denied: [Errno 13] Permission denied: /Users/ada/.npm/_logs/root'')"
  by code_simp

lemma sample_delete_file:
  "fst (delete_path tmp_file_path False sample_world) = (6, 1, None)"
  "node_at (fs (snd (delete_path tmp_file_path False sample_world))) [''tmp''] = Some (Dir True [])"
  "path_exists sample_world tmp_file_path"
  "\<not> path_exists sample_world (Path True [''nonexistent'', ''path''])"
  by code_simp+

lemma sample_delete_fails:
  "snd (snd (fst (delete_path logs_path False sample_world))) \<noteq> None"
  by code_simp

theorem delete_path_witness:
  "path_exists sample_world tmp_file_path
   \<and> fst (delete_path tmp_file_path False sample_world) = (6, 1, None)
   \<and> node_at (fs (snd (delete_path tmp_file_path False sample_world))) [''tmp''] = Some (Dir True [])
   \<and> fst (delete_path tmp_file_path True sample_world) = (6, 1, None)
   \<and> fs (snd (delete_path tmp_file_path True sample_world)) = sample_fs
   \<and> \<not> path_exists sample_world (Path True [''nonexistent'', ''path''])
   \<and> delete_path (Path True [''nonexistent'', ''path'']) False sample_world = ((0, 0, None), sample_world)
   \<and> snd (snd (fst (delete_path logs_path False sample_world))) \<noteq> None
   \<and> fst (fst (delete_path logs_path False sample_world)) = 0
   \<and> fst (snd (fst (delete_path logs_path False sample_world))) = 0"
proof -
  have a: "fst (delete_path tmp_file_path True sample_world) = (6, 1, None)"
    using delete_path_dry_run [of sample_world tmp_file_path False] sample_delete_file(1)
    by simp
  have b: "fs (snd (delete_path tmp_file_path True sample_world)) = sample_fs"
    using delete_path_dry_run [of sample_world tmp_file_path False]
    by (simp add: sample_world_def)
  have c: "delete_path (Path True [''nonexistent'', ''path'']) False sample_world
             = ((0, 0, None), sample_world)"
    using delete_path_dry_run [of sample_world "Path True [''nonexistent'', ''path'']" False]
      sample_delete_file(4)
    by blast
  have d: "fst (fst (delete_path logs_path False sample_world)) = 0
           \<and> fst (snd (fst (delete_path logs_path False sample_world))) = 0"
    using delete_path_dry_run [of sample_world logs_path False] sample_delete_fails
    by blast
  from a b c d sample_delete_file sample_delete_fails show ?thesis by blast
qed

section \<open>Verification: cleaning a category\<close>

lemma clean_loop_dry_frame:
  "fs (snd (clean_loop E True ps st w)) = fs w \<and> cwd (snd (clean_loop E True ps st w)) = cwd w"
proof (induction ps arbitrary: st w)
  case Nil
  show ?case by simp
next
  case (Cons raw rest)
  let ?p = "expand_path E raw"
  obtain freed deleted err w' where d: "delete_path ?p True w = ((freed, deleted, err), w')"
    by (metis prod.exhaust)
  have w': "fs w' = fs w" "cwd w' = cwd w"
    using delete_path_dry_frame [of ?p w] d by simp_all
  show ?case
    using Cons.IH [of _ w] Cons.IH [of _ w'] w' d
    by (simp add: Let_def)
qed

lemma clean_category_success_iff:
  assumes "clean_category sh R E cid dry w = (Inr r, w')"
  shows "success r \<longleftrightarrow> cr_error r = None"
proof (cases "get_category R cid")
  case None
  then show ?thesis using assms by (auto simp: clean_category_def)
next
  case (Some category)
  show ?thesis
  proof (cases "(cleanup_command category \<noteq> None \<and> cleanup_command category \<noteq> Some []) \<and> \<not> dry")
    case True
    then have "\<not> dry" by simp
    then show ?thesis using assms Some True
      by (auto simp: clean_category_def run_native_cleanup_def
               split: prod.splits proc_outcome.splits if_splits)
  next
    case False
    obtain st w1 where l: "clean_loop E dry (paths category)
        \<lparr> total_bytes = 0, total_files = 0, errors = [], paths_cleaned = [] \<rparr> w = (st, w1)"
      by (metis prod.exhaust)
    show ?thesis using assms Some False l
      by (auto simp: clean_category_def split: list.splits if_splits)
  qed
qed

lemma run_native_cleanup_success_iff:
  "success (fst (run_native_cleanup sh cid command dry w))
     \<longleftrightarrow> cr_error (fst (run_native_cleanup sh cid command dry w)) = None"
  by (auto simp: run_native_cleanup_def split: prod.splits proc_outcome.splits)

text \<open>
  C9. Every result that \<^verbatim>\<open>clean_category\<close> returns, through any branch (unknown
  category, native command with any outcome, or the loop over the paths), has
  \<^verbatim>\<open>success\<close> true if and only if its \<^verbatim>\<open>error\<close> is \<^verbatim>\<open>None\<close>; so has every result
  of \<^verbatim>\<open>_run_native_cleanup\<close>. (When the loop is taken for a category that declares no
  path, \<^verbatim>\<open>clean_category\<close> raises \<^verbatim>\<open>IndexError\<close> and returns no result.)
\<close>

theorem clean_category_success_iff_no_error:
  "(clean_category sh R E cid dry w = (Inr r, w') \<longrightarrow> (success r \<longleftrightarrow> cr_error r = None))
   \<and> (success (fst (run_native_cleanup sh cid command dry w))
        \<longleftrightarrow> cr_error (fst (run_native_cleanup sh cid command dry w)) = None)"
  using clean_category_success_iff run_native_cleanup_success_iff by blast

lemma sample_clean_home:
  "fst (clean_category failing_shell clean_registry sample_env ''home_dir'' False sample_world) =
     Inr \<lparr> cr_category_id = ''home_dir'', cr_path = ''~'', bytes_freed = 0, files_deleted = 0,
           success = False, cr_error = Some ''Blocked path: /Users/ada'', dry_run = False \<rparr>"
  by code_simp

lemma sample_clean_failing:
  "fst (clean_category failing_shell clean_registry sample_env ''npm_cache'' False sample_world) =
     Inr \<lparr> cr_category_id = ''npm_cache'', cr_path = ''[native command: npm cache clean --force]'',
           bytes_freed = 0, files_deleted = 0,
           success = False, cr_error = Some ''Command failed'', dry_run = False \<rparr>"
  by code_simp

lemma sample_clean_no_paths:
  "fst (clean_category failing_shell clean_registry sample_env ''node_modules'' False sample_world) =
     Inl IndexError"
  by code_simp

theorem clean_category_success_witness:
  "(\<exists>r. fst (clean_category failing_shell clean_registry sample_env ''home_dir'' False sample_world) = Inr r
        \<and> \<not> success r \<and> cr_error r = Some ''Blocked path: /Users/ada'')
   \<and> (\<exists>r. fst (clean_category failing_shell clean_registry sample_env ''npm_cache'' False sample_world) = Inr r
        \<and> \<not> success r \<and> cr_error r = Some ''Command failed'')
   \<and> fst (clean_category failing_shell clean_registry sample_env ''node_modules'' False sample_world)
        = Inl IndexError"
proof -
  have a: "\<exists>r. fst (clean_category failing_shell clean_registry sample_env cid False sample_world) = Inr r
        \<and> \<not> success r \<and> cr_error r = Some e"
    if h: "fst (clean_category failing_shell clean_registry sample_env cid False sample_world) = Inr r"
      and e: "cr_error r = Some e" for cid r e
  proof -
    obtain w' where "clean_category failing_shell clean_registry sample_env cid False sample_world = (Inr r, w')"
      using h by (metis prod.collapse)
    then have "success r \<longleftrightarrow> cr_error r = None"
      using clean_category_success_iff_no_error
        [of failing_shell clean_registry sample_env cid False sample_world r w'] by blast
    with h e show ?thesis by simp
  qed
  show ?thesis
    using a [OF sample_clean_home] a [OF sample_clean_failing] sample_clean_no_paths by simp
qed

lemma clean_category_dry_ignores_command:
  assumes "R cid = Some category"
  shows "clean_category sh R E cid True w =
         clean_category sh' (R(cid \<mapsto> category\<lparr>cleanup_command := None\<rparr>)) E cid True w"
proof -
  have p: "paths (category\<lparr>cleanup_command := None\<rparr>) = paths category" by simp
  have l: "get_category R cid = Some category" using assms by (simp add: get_category_def)
  have r: "get_category (R(cid \<mapsto> category\<lparr>cleanup_command := None\<rparr>)) cid
             = Some (category\<lparr>cleanup_command := None\<rparr>)"
    by (simp add: get_category_def)
  show ?thesis
    unfolding clean_category_def l r option.case p by simp
qed

lemma clean_category_dry_frame:
  "fs (snd (clean_category sh R E cid True w)) = fs w"
proof (cases "get_category R cid")
  case None
  then show ?thesis by (simp add: clean_category_def)
next
  case (Some category)
  obtain st w1 where l: "clean_loop E True (paths category)
        \<lparr> total_bytes = 0, total_files = 0, errors = [], paths_cleaned = [] \<rparr> w = (st, w1)"
    by (metis prod.exhaust)
  have "fs w1 = fs w"
    using clean_loop_dry_frame [of E "paths category"
        "\<lparr> total_bytes = 0, total_files = 0, errors = [], paths_cleaned = [] \<rparr>" w]
    unfolding l by simp
  then show ?thesis using Some l
    by (auto simp: clean_category_def split: list.splits)
qed

lemma clean_loop_nothing_exists:
  "(\<forall>raw \<in> set ps. \<not> path_exists w (expand_path E raw)) \<Longrightarrow> clean_loop E dry ps st w = (st, w)"
  by (induction ps) (simp_all add: Let_def)

lemma clean_category_nothing_exists:
  assumes "R cid = Some category" "paths category \<noteq> []"
    "\<forall>raw \<in> set (paths category). \<not> path_exists w (expand_path E raw)"
  shows "clean_category sh R E cid True w =
           (Inr \<lparr> cr_category_id = cid, cr_path = hd (paths category), bytes_freed = 0,
                  files_deleted = 0, success = True, cr_error = None, dry_run = True \<rparr>, w)"
proof -
  obtain p0 rest where p: "paths category = p0 # rest"
    using assms(2) by (cases "paths category") auto
  have l: "get_category R cid = Some category" using assms(1) by (simp add: get_category_def)
  show ?thesis
    unfolding clean_category_def l option.case
    using clean_loop_nothing_exists [OF assms(3), of True] by (simp add: p)
qed

text \<open>
  C2 (as amended). For a category that declares a native cleanup command, a dry run of
  \<^verbatim>\<open>clean_category\<close> does not run the command: its outcome is the one of the same
  category without the command, whatever the command would do, namely the dry-run
  loop over the declared paths, which leaves the filesystem unchanged and reports the
  measured bytes and files; when none of the declared paths exists it reports success
  with zero bytes and zero files. \<^verbatim>\<open>_run_native_cleanup\<close> itself, called with
  \<^verbatim>\<open>dry_run=True\<close>, returns success with zero bytes and zero files and runs nothing.
\<close>

theorem clean_category_dry_run_native:
  "R cid = Some category \<and> cleanup_command category = Some command \<longrightarrow>
     clean_category sh R E cid True w =
       clean_category sh' (R(cid \<mapsto> category\<lparr>cleanup_command := None\<rparr>)) E cid True w
     \<and> fs (snd (clean_category sh R E cid True w)) = fs w
     \<and> (paths category \<noteq> []
          \<and> (\<forall>raw \<in> set (paths category). \<not> path_exists w (expand_path E raw)) \<longrightarrow>
        clean_category sh R E cid True w =
          (Inr \<lparr> cr_category_id = cid, cr_path = hd (paths category), bytes_freed = 0,
                 files_deleted = 0, success = True, cr_error = None, dry_run = True \<rparr>, w))
     \<and> run_native_cleanup sh cid command True w =
         (\<lparr> cr_category_id = cid, cr_path = native_path command, bytes_freed = 0,
            files_deleted = 0, success = True, cr_error = None, dry_run = True \<rparr>, w)"
proof (intro impI conjI)
  assume a: "R cid = Some category \<and> cleanup_command category = Some command"
  then show "clean_category sh R E cid True w =
       clean_category sh' (R(cid \<mapsto> category\<lparr>cleanup_command := None\<rparr>)) E cid True w"
    using clean_category_dry_ignores_command by blast
  show "fs (snd (clean_category sh R E cid True w)) = fs w"
    by (rule clean_category_dry_frame)
  show "run_native_cleanup sh cid command True w =
         (\<lparr> cr_category_id = cid, cr_path = native_path command, bytes_freed = 0,
            files_deleted = 0, success = True, cr_error = None, dry_run = True \<rparr>, w)"
    by (simp add: run_native_cleanup_def)
  assume "paths category \<noteq> []
          \<and> (\<forall>raw \<in> set (paths category). \<not> path_exists w (expand_path E raw))"
  then show "clean_category sh R E cid True w =
          (Inr \<lparr> cr_category_id = cid, cr_path = hd (paths category), bytes_freed = 0,
                 files_deleted = 0, success = True, cr_error = None, dry_run = True \<rparr>, w)"
    using a clean_category_nothing_exists by blast
qed

text \<open>
  The claim as first stated promises zero bytes and zero files: the dry run of the npm
  cache category, which declares a command, reports the 9 bytes and 2 files it
  measured.
\<close>

theorem clean_category_dry_run_native_counterexample:
  "map_option cleanup_command (clean_registry ''npm_cache'') = Some (Some ''npm cache clean --force'')
   \<and> fst (clean_category wiping_shell clean_registry sample_env ''npm_cache'' True sample_world) =
     Inr \<lparr> cr_category_id = ''npm_cache'', cr_path = ''/Users/ada/.npm/_cacache'',
           bytes_freed = 9, files_deleted = 2, success = True, cr_error = None, dry_run = True \<rparr>"
  by code_simp

lemma sample_yarn_missing:
  "list_all (\<lambda>raw. \<not> path_exists sample_world (expand_path sample_env raw)) (paths yarn_cache_category)"
  by code_simp

theorem clean_category_dry_run_native_witness:
  "clean_registry ''npm_cache'' = Some npm_cache_category
   \<and> cleanup_command npm_cache_category = Some ''npm cache clean --force''
   \<and> clean_category wiping_shell clean_registry sample_env ''npm_cache'' True sample_world =
       clean_category failing_shell
         (clean_registry(''npm_cache'' \<mapsto> npm_cache_category\<lparr>cleanup_command := None\<rparr>))
         sample_env ''npm_cache'' True sample_world
   \<and> fs (snd (clean_category wiping_shell clean_registry sample_env ''npm_cache'' True sample_world))
       = sample_fs
   \<and> success (fst (run_native_cleanup wiping_shell ''npm_cache'' ''npm cache clean --force'' True
                     sample_world))
   \<and> bytes_freed (fst (run_native_cleanup wiping_shell ''npm_cache'' ''npm cache clean --force'' True
                     sample_world)) = 0
   \<and> clean_registry ''yarn_cache'' = Some yarn_cache_category
   \<and> cleanup_command yarn_cache_category = Some ''yarn cache clean''
   \<and> paths yarn_cache_category \<noteq> []
   \<and> list_all (\<lambda>raw. \<not> path_exists sample_world (expand_path sample_env raw))
         (paths yarn_cache_category)
   \<and> clean_category wiping_shell clean_registry sample_env ''yarn_cache'' True sample_world =
       (Inr \<lparr> cr_category_id = ''yarn_cache'', cr_path = ''~/.yarn/cache'', bytes_freed = 0,
              files_deleted = 0, success = True, cr_error = None, dry_run = True \<rparr>, sample_world)"
proof -
  have h: "clean_registry ''npm_cache'' = Some npm_cache_category
           \<and> cleanup_command npm_cache_category = Some ''npm cache clean --force''"
    by (simp add: clean_registry_def npm_cache_category_def)
  have t: "clean_category wiping_shell clean_registry sample_env ''npm_cache'' True sample_world =
       clean_category failing_shell
         (clean_registry(''npm_cache'' \<mapsto> npm_cache_category\<lparr>cleanup_command := None\<rparr>))
         sample_env ''npm_cache'' True sample_world
     \<and> fs (snd (clean_category wiping_shell clean_registry sample_env ''npm_cache'' True sample_world))
          = fs sample_world
     \<and> run_native_cleanup wiping_shell ''npm_cache'' ''npm cache clean --force'' True sample_world =
         (\<lparr> cr_category_id = ''npm_cache'', cr_path = native_path ''npm cache clean --force'',
            bytes_freed = 0, files_deleted = 0, success = True, cr_error = None,
            dry_run = True \<rparr>, sample_world)"
    using clean_category_dry_run_native
      [of clean_registry "''npm_cache''" npm_cache_category "''npm cache clean --force''"
          wiping_shell sample_env sample_world failing_shell] h
    by blast
  have f: "fs sample_world = sample_fs" by (simp add: sample_world_def)
  have s: "success (fst (run_native_cleanup wiping_shell ''npm_cache'' ''npm cache clean --force'' True
                     sample_world))"
     "bytes_freed (fst (run_native_cleanup wiping_shell ''npm_cache'' ''npm cache clean --force'' True
                     sample_world)) = 0"
    using t by simp_all
  have y: "clean_registry ''yarn_cache'' = Some yarn_cache_category
           \<and> cleanup_command yarn_cache_category = Some ''yarn cache clean''"
    by (simp add: clean_registry_def yarn_cache_category_def)
  have n: "paths yarn_cache_category \<noteq> []
           \<and> (\<forall>raw \<in> set (paths yarn_cache_category).
                  \<not> path_exists sample_world (expand_path sample_env raw))"
    using sample_yarn_missing by (simp add: list_all_iff yarn_cache_category_def)
  have "clean_category wiping_shell clean_registry sample_env ''yarn_cache'' True sample_world =
       (Inr \<lparr> cr_category_id = ''yarn_cache'', cr_path = hd (paths yarn_cache_category),
              bytes_freed = 0, files_deleted = 0, success = True, cr_error = None,
              dry_run = True \<rparr>, sample_world)"
    using clean_category_dry_run_native
      [of clean_registry "''yarn_cache''" yarn_cache_category "''yarn cache clean''"
          wiping_shell sample_env sample_world failing_shell] y n
    by blast
  then have z: "clean_category wiping_shell clean_registry sample_env ''yarn_cache'' True sample_world =
       (Inr \<lparr> cr_category_id = ''yarn_cache'', cr_path = ''~/.yarn/cache'', bytes_freed = 0,
              files_deleted = 0, success = True, cr_error = None, dry_run = True \<rparr>, sample_world)"
    by (simp add: yarn_cache_category_def)
  have p: "paths yarn_cache_category \<noteq> []" using n by blast
  from h t f s y p sample_yarn_missing z show ?thesis by metis
qed

section \<open>Verification: scanning a recursive category\<close>

text \<open>
  C10. \<^verbatim>\<open>scan_recursive_category\<close> on a category whose \<^verbatim>\<open>is_recursive\<close> flag is false
  returns the empty list and leaves the state (filesystem, cache, clock) untouched,
  whatever paths, patterns and search roots the category declares.
\<close>

theorem scan_recursive_category_not_recursive:
  "\<not> is_recursive category \<longrightarrow> scan_recursive_category E category w = ([], w)"
  by (simp add: scan_recursive_category_def)

lemma sample_recursive_scan:
  "map (\<lambda>r. (path r, size_bytes r, file_count r, dir_count r))
     (fst (scan_recursive_category sample_env proj_category sample_world)) =
     [(''/Users/ada/proj/node_modules'', 5, 2, 2), (''/Users/ada/proj/src/node_modules'', 5, 1, 0)]"
  by code_simp

theorem scan_recursive_category_witness:
  "\<not> is_recursive (proj_category\<lparr>is_recursive := False\<rparr>)
   \<and> scan_recursive_category sample_env (proj_category\<lparr>is_recursive := False\<rparr>) sample_world
       = ([], sample_world)
   \<and> map (\<lambda>r. (path r, size_bytes r, file_count r, dir_count r))
        (fst (scan_recursive_category sample_env proj_category sample_world)) =
       [(''/Users/ada/proj/node_modules'', 5, 2, 2), (''/Users/ada/proj/src/node_modules'', 5, 1, 0)]"
proof -
  have h: "\<not> is_recursive (proj_category\<lparr>is_recursive := False\<rparr>)" by simp
  from scan_recursive_category_not_recursive
    [of "proj_category\<lparr>is_recursive := False\<rparr>" sample_env sample_world] h
  have "scan_recursive_category sample_env (proj_category\<lparr>is_recursive := False\<rparr>) sample_world
       = ([], sample_world)" by blast
  with h sample_recursive_scan show ?thesis by blast
qed

end
